theory Spec2Isabelle
  imports Complex_Main
begin

section \<open>Data model\<close>

text \<open>
  The shop backend keeps two tables, \<^verbatim>\<open>products\<close> and \<^verbatim>\<open>orders\<close>, and talks to a payment
  gateway. The sources hold the server in several revisions and a standalone webhook
  handler (\<^verbatim>\<open>api/webhook.js\<close>); the routes below are those of the latest revision of the server,
  and the standalone handler.

  JavaScript numbers are modelled exactly: identifiers, quantities and stock as
  \<^typ>\<open>int\<close>, prices and totals as \<^typ>\<open>rat\<close> (no floating-point rounding).

  A line item is an object with the properties \<^verbatim>\<open>id\<close> and \<^verbatim>\<open>quantity\<close>, which the loops
  of the handlers read; it may carry \<^verbatim>\<open>name\<close> and \<^verbatim>\<open>price\<close> as well, as the objects of a
  request body do. The field \<^verbatim>\<open>id\<close> is called \<open>item_id\<close> here, since \<open>id\<close> is the identity
  function of HOL.
\<close>

record item =
  item_id :: int
  quantity :: int

record cart_item = item +
  name :: "string option"
  item_price :: "rat option"

text \<open>A row of \<^verbatim>\<open>products\<close>, as the queries \<^verbatim>\<open>SELECT price, stock FROM products WHERE id=$1\<close> read it.\<close>

record product =
  price :: rat
  stock :: int

text \<open>A row of \<^verbatim>\<open>orders\<close>: the four inserted columns and the \<^verbatim>\<open>id\<close> the database assigns.\<close>

record order =
  order_id :: nat
  order_email :: "string option"
  order_products :: string
  total :: rat
  status :: string

section \<open>JSON texts\<close>

text \<open>
  \<^verbatim>\<open>JSON.parse\<close> and \<^verbatim>\<open>JSON.stringify\<close>, the two built-in functions through which line items
  pass between the gateway's metadata, the \<^verbatim>\<open>products\<close> column of an order and the handlers.
  \<open>JSON_value\<close> reads a text by the JSON grammar (arrays, objects, strings with their
  escapes, numbers, \<^verbatim>\<open>true\<close>, \<^verbatim>\<open>false\<close>, \<^verbatim>\<open>null\<close>, white space between the tokens).
\<close>

text \<open>A JSON value; numbers are exact.\<close>

datatype json =
    JNull
  | JBool bool
  | JNum rat
  | JStr string
  | JArr "json list"
  | JObj "(string \<times> json) list"

subsection \<open>Reading\<close>

text \<open>Decimal digits.\<close>

definition digit_char :: "nat \<Rightarrow> char" where
  "digit_char d = char_of (48 + d)"

definition is_digit :: "char \<Rightarrow> bool" where
  "is_digit c = (48 \<le> (of_char c :: nat) \<and> (of_char c :: nat) \<le> 57)"

definition digit_val :: "char \<Rightarrow> nat" where
  "digit_val c = of_char c - 48"

definition read_nat :: "string \<Rightarrow> nat" where
  "read_nat ds = foldl (\<lambda>acc c. acc * 10 + digit_val c) 0 ds"

text \<open>Insignificant white space: space, tab, line feed, carriage return.\<close>

definition is_ws :: "char \<Rightarrow> bool" where
  "is_ws c = (c = CHR '' '' \<or> c = CHR 0x09 \<or> c = CHR 0x0A \<or> c = CHR 0x0D)"

definition skip_ws :: "string \<Rightarrow> string" where
  "skip_ws s = dropWhile is_ws s"

text \<open>\<open>expect p s\<close>: the rest of \<open>s\<close> after its prefix \<open>p\<close>.\<close>

fun expect :: "string \<Rightarrow> string \<Rightarrow> string option" where
  "expect [] s = Some s"
| "expect (c # cs) [] = None"
| "expect (c # cs) (d # ds) = (if c = d then expect cs ds else None)"

text \<open>
  A number: an optional minus sign, an integer part without a superfluous leading zero, an
  optional fraction and an optional exponent.
\<close>

definition pow10 :: "int \<Rightarrow> rat" where
  "pow10 e = (if 0 \<le> e then 10 ^ nat e else 1 / 10 ^ nat (- e))"

definition frac_part :: "string \<Rightarrow> (string \<times> string) option" where
  "frac_part s =
     (case s of
        [] \<Rightarrow> Some ([], s)
      | c # r \<Rightarrow>
          if c = CHR ''.'' then
            (if takeWhile is_digit r = [] then None
             else Some (takeWhile is_digit r, dropWhile is_digit r))
          else Some ([], s))"

definition exp_part :: "string \<Rightarrow> (int \<times> string) option" where
  "exp_part s =
     (case s of
        [] \<Rightarrow> Some (0, s)
      | c # r \<Rightarrow>
          if c = CHR ''e'' \<or> c = CHR ''E'' then
            (case r of
               [] \<Rightarrow> None
             | d # r1 \<Rightarrow>
                 if d = CHR ''-'' then
                   (if takeWhile is_digit r1 = [] then None
                    else Some (- int (read_nat (takeWhile is_digit r1)), dropWhile is_digit r1))
                 else if d = CHR ''+'' then
                   (if takeWhile is_digit r1 = [] then None
                    else Some (int (read_nat (takeWhile is_digit r1)), dropWhile is_digit r1))
                 else
                   (if takeWhile is_digit r = [] then None
                    else Some (int (read_nat (takeWhile is_digit r)), dropWhile is_digit r)))
          else Some (0, s))"

definition unsigned_number :: "string \<Rightarrow> (rat \<times> string) option" where
  "unsigned_number s =
     (let ds = takeWhile is_digit s in
      if ds = [] \<or> (length ds > 1 \<and> hd ds = CHR ''0'') then None
      else
        (case frac_part (dropWhile is_digit s) of
           None \<Rightarrow> None
         | Some (fs, s1) \<Rightarrow>
             (case exp_part s1 of
                None \<Rightarrow> None
              | Some (e, s2) \<Rightarrow>
                  Some ((of_nat (read_nat ds) + of_nat (read_nat fs) / 10 ^ length fs) * pow10 e,
                        s2))))"

definition parse_number :: "string \<Rightarrow> (rat \<times> string) option" where
  "parse_number s =
     (case s of
        [] \<Rightarrow> None
      | c # r \<Rightarrow>
          if c = CHR ''-'' then
            (case unsigned_number r of None \<Rightarrow> None | Some (q, t) \<Rightarrow> Some (- q, t))
          else unsigned_number s)"

text \<open>
  A string, read from behind its opening quote up to the closing one: the two-character
  escapes, the escape \<^verbatim>\<open>u\<close> with its four hexadecimal digits (decoded on its own, into the
  bytes of UTF-8; a surrogate pair is not combined), and no raw control character. The
  characters of a string are bytes.
\<close>

definition hex_val :: "char \<Rightarrow> nat option" where
  "hex_val c =
     (let n = (of_char c :: nat) in
      if 48 \<le> n \<and> n \<le> 57 then Some (n - 48)
      else if 97 \<le> n \<and> n \<le> 102 then Some (n - 87)
      else if 65 \<le> n \<and> n \<le> 70 then Some (n - 55)
      else None)"

definition utf8 :: "nat \<Rightarrow> string" where
  "utf8 n =
     (if n < 128 then [char_of n]
      else if n < 2048 then [char_of (192 + n div 64), char_of (128 + n mod 64)]
      else [char_of (224 + n div 4096), char_of (128 + (n div 64) mod 64), char_of (128 + n mod 64)])"

definition unescape :: "char \<Rightarrow> char option" where
  "unescape e =
     (if e = CHR 0x22 then Some (CHR 0x22)
      else if e = CHR 0x5C then Some (CHR 0x5C)
      else if e = CHR ''/'' then Some (CHR ''/'')
      else if e = CHR ''b'' then Some (CHR 0x08)
      else if e = CHR ''f'' then Some (CHR 0x0C)
      else if e = CHR ''n'' then Some (CHR 0x0A)
      else if e = CHR ''r'' then Some (CHR 0x0D)
      else if e = CHR ''t'' then Some (CHR 0x09)
      else None)"

definition prepend :: "string \<Rightarrow> (string \<times> string) option \<Rightarrow> (string \<times> string) option" where
  "prepend cs x = (case x of None \<Rightarrow> None | Some (ds, t) \<Rightarrow> Some (cs @ ds, t))"

fun parse_chars :: "string \<Rightarrow> (string \<times> string) option" where
  "parse_chars [] = None"
| "parse_chars (c # r) =
     (if c = CHR 0x22 then Some ([], r)
      else if c = CHR 0x5C then
        (case r of
           [] \<Rightarrow> None
         | e # r1 \<Rightarrow>
             if e = CHR ''u'' then
               (case r1 of
                  h1 # h2 # h3 # h4 # r2 \<Rightarrow>
                    (case (hex_val h1, hex_val h2, hex_val h3, hex_val h4) of
                       (Some a, Some b, Some c', Some d) \<Rightarrow>
                         prepend (utf8 (((a * 16 + b) * 16 + c') * 16 + d)) (parse_chars r2)
                     | _ \<Rightarrow> None)
                | _ \<Rightarrow> None)
             else
               (case unescape e of
                  None \<Rightarrow> None
                | Some x \<Rightarrow> prepend [x] (parse_chars r1)))
      else if (of_char c :: nat) < 32 then None
      else prepend [c] (parse_chars r))"

text \<open>
  A value, the elements of an array up to its closing bracket, and the members of an object
  up to its closing brace; each returns what it read and the rest of the text. The
  comparisons of lengths in \<open>parse_elems\<close> and \<open>parse_members\<close> serve the termination proof;
  they are always true (lemmas \<open>parse_elems_eq\<close> and \<open>parse_members_eq\<close>).
\<close>

function parse_value :: "string \<Rightarrow> (json \<times> string) option"
  and parse_elems :: "string \<Rightarrow> (json list \<times> string) option"
  and parse_members :: "string \<Rightarrow> ((string \<times> json) list \<times> string) option"
where
  "parse_value s =
     (case s of
        [] \<Rightarrow> None
      | c # r \<Rightarrow>
          if c = CHR ''['' then
            (case skip_ws r of
               [] \<Rightarrow> None
             | d # r1 \<Rightarrow>
                 if d = CHR '']'' then Some (JArr [], r1)
                 else (case parse_elems (skip_ws r) of
                         None \<Rightarrow> None
                       | Some (vs, t) \<Rightarrow> Some (JArr vs, t)))
          else if c = CHR ''{'' then
            (case skip_ws r of
               [] \<Rightarrow> None
             | d # r1 \<Rightarrow>
                 if d = CHR ''}'' then Some (JObj [], r1)
                 else (case parse_members (skip_ws r) of
                         None \<Rightarrow> None
                       | Some (ms, t) \<Rightarrow> Some (JObj ms, t)))
          else if c = CHR 0x22 then
            (case parse_chars r of None \<Rightarrow> None | Some (cs, t) \<Rightarrow> Some (JStr cs, t))
          else if c = CHR ''t'' then
            (case expect ''rue'' r of None \<Rightarrow> None | Some t \<Rightarrow> Some (JBool True, t))
          else if c = CHR ''f'' then
            (case expect ''alse'' r of None \<Rightarrow> None | Some t \<Rightarrow> Some (JBool False, t))
          else if c = CHR ''n'' then
            (case expect ''ull'' r of None \<Rightarrow> None | Some t \<Rightarrow> Some (JNull, t))
          else
            (case parse_number s of None \<Rightarrow> None | Some (q, t) \<Rightarrow> Some (JNum q, t)))"
| "parse_elems s =
     (case parse_value s of
        None \<Rightarrow> None
      | Some (v, t) \<Rightarrow>
          (case skip_ws t of
             [] \<Rightarrow> None
           | d # t1 \<Rightarrow>
               if d = CHR '']'' then Some ([v], t1)
               else if d = CHR '','' \<and> length t1 < length s then
                 (case parse_elems (skip_ws t1) of
                    None \<Rightarrow> None
                  | Some (vs, u) \<Rightarrow> Some (v # vs, u))
               else None))"
| "parse_members s =
     (case s of
        [] \<Rightarrow> None
      | c # r \<Rightarrow>
          if c = CHR 0x22 then
            (case parse_chars r of
               None \<Rightarrow> None
             | Some (k, t) \<Rightarrow>
                 (case skip_ws t of
                    [] \<Rightarrow> None
                  | d # t1 \<Rightarrow>
                      if d = CHR '':'' \<and> length t1 < length s then
                        (case parse_value (skip_ws t1) of
                           None \<Rightarrow> None
                         | Some (v, u) \<Rightarrow>
                             (case skip_ws u of
                                [] \<Rightarrow> None
                              | e # u1 \<Rightarrow>
                                  if e = CHR ''}'' then Some ([(k, v)], u1)
                                  else if e = CHR '','' \<and> length u1 < length s then
                                    (case parse_members (skip_ws u1) of
                                       None \<Rightarrow> None
                                     | Some (ms, x) \<Rightarrow> Some ((k, v) # ms, x))
                                  else None))
                      else None))
          else None)"
  by pat_completeness auto

termination
proof (relation "measure (\<lambda>x. case x of
    Inl s \<Rightarrow> 2 * length s
  | Inr (Inl s) \<Rightarrow> 2 * length s + 1
  | Inr (Inr s) \<Rightarrow> 2 * length s + 1)", goal_cases)
  case 1
  show ?case by simp
next
  case (2 s c r d r1)
  from length_dropWhile_le [of is_ws r] 2 show ?case by (simp add: skip_ws_def)
next
  case (3 s c r d r1)
  from length_dropWhile_le [of is_ws r] 3 show ?case by (simp add: skip_ws_def)
next
  case (4 s)
  show ?case by simp
next
  case (5 s x v t d t1)
  from length_dropWhile_le [of is_ws t1] 5 show ?case by (simp add: skip_ws_def)
next
  case (6 s c r x k t d t1)
  from length_dropWhile_le [of is_ws t1] 6 show ?case by (simp add: skip_ws_def)
next
  case (7 s c r x k t d t1 y v u e u1)
  from length_dropWhile_le [of is_ws u1] 7 show ?case by (simp add: skip_ws_def)
qed

text \<open>The value of a whole text: \<open>None\<close> where \<^verbatim>\<open>JSON.parse\<close> throws its \<^verbatim>\<open>SyntaxError\<close>, the
  value that it returns otherwise.\<close>

definition JSON_value :: "string \<Rightarrow> json option" where
  "JSON_value s =
     (case parse_value (skip_ws s) of
        None \<Rightarrow> None
      | Some (v, t) \<Rightarrow> if skip_ws t = [] then Some v else None)"

subsection \<open>Writing\<close>

text \<open>
  \<^verbatim>\<open>JSON.stringify\<close> of a list of line items: compact text. An integer is written with its
  digits, a price with a fractional part in decimal notation (all its digits when the
  expansion ends), a string between quotes with the escapes that \<^verbatim>\<open>JSON.stringify\<close> uses.
  The properties of a line item are written in the order \<^verbatim>\<open>id\<close>, \<^verbatim>\<open>name\<close>, \<^verbatim>\<open>price\<close>,
  \<^verbatim>\<open>quantity\<close>, and those that the object does not have are left out; JavaScript keeps the
  order in which the properties were created, which no part of the program reads.
\<close>

fun show_nat :: "nat \<Rightarrow> string" where
  "show_nat n = (if n < 10 then [digit_char n] else show_nat (n div 10) @ [digit_char (n mod 10)])"

declare show_nat.simps [simp del]

definition show_int :: "int \<Rightarrow> string" where
  "show_int i = (if i < 0 then CHR ''-'' # show_nat (nat (- i)) else show_nat (nat i))"

fun frac_digits :: "nat \<Rightarrow> rat \<Rightarrow> string" where
  "frac_digits 0 r = []"
| "frac_digits (Suc n) r =
     (if r = 0 then []
      else digit_char (nat \<lfloor>r * 10\<rfloor>) # frac_digits n (r * 10 - of_int \<lfloor>r * 10\<rfloor>))"

definition show_rat :: "rat \<Rightarrow> string" where
  "show_rat p =
     (let a = \<bar>p\<bar>; n = nat \<lfloor>a\<rfloor>; r = a - of_nat n
      in (if p < 0 then ''-'' else []) @ show_nat n @
         (if r = 0 then [] else ''.'' @ frac_digits (nat (snd (quotient_of r))) r))"

definition hex_digit :: "nat \<Rightarrow> char" where
  "hex_digit d = (if d < 10 then char_of (48 + d) else char_of (87 + d))"

definition escape :: "char \<Rightarrow> string" where
  "escape c =
     (if c = CHR 0x22 then [CHR 0x5C, CHR 0x22]
      else if c = CHR 0x5C then [CHR 0x5C, CHR 0x5C]
      else if c = CHR 0x08 then [CHR 0x5C, CHR ''b'']
      else if c = CHR 0x0C then [CHR 0x5C, CHR ''f'']
      else if c = CHR 0x0A then [CHR 0x5C, CHR ''n'']
      else if c = CHR 0x0D then [CHR 0x5C, CHR ''r'']
      else if c = CHR 0x09 then [CHR 0x5C, CHR ''t'']
      else if (of_char c :: nat) < 32 then
        [CHR 0x5C, CHR ''u'', CHR ''0'', CHR ''0'', hex_digit (of_char c div 16),
         hex_digit (of_char c mod 16)]
      else [c])"

definition quote :: "string \<Rightarrow> string" where
  "quote s = [CHR 0x22] @ concat (map escape s) @ [CHR 0x22]"

definition stringify_item :: "cart_item \<Rightarrow> string" where
  \<open>stringify_item it =
     ''{"id":'' @ show_int (item_id it) @
     (case name it of None \<Rightarrow> [] | Some n \<Rightarrow> '',"name":'' @ quote n) @
     (case item_price it of None \<Rightarrow> [] | Some p \<Rightarrow> '',"price":'' @ show_rat p) @
     '',"quantity":'' @ show_int (quantity it) @ ''}''\<close>

fun stringify_items :: "cart_item list \<Rightarrow> string" where
  "stringify_items [] = []"
| "stringify_items [it] = stringify_item it"
| "stringify_items (it # its) = stringify_item it @ '','' @ stringify_items its"

definition JSON_stringify :: "cart_item list \<Rightarrow> string" where
  "JSON_stringify its = ''['' @ stringify_items its @ '']''"

subsection \<open>Line items\<close>

text \<open>
  The handlers use the parsed value as a list of line items. \<open>JSON_parse s\<close> is that list
  when the value is an array of objects with the integer properties \<^verbatim>\<open>id\<close> and \<^verbatim>\<open>quantity\<close>
  and, optionally, a string \<^verbatim>\<open>name\<close> and a number \<^verbatim>\<open>price\<close>, and no other property; of a
  property that is written twice the last one counts. It is \<open>None\<close> where \<^verbatim>\<open>JSON.parse\<close>
  throws (\<open>JSON_value s = None\<close>), and also where the value has another shape: what the loops
  of the handlers do with such a value (a \<^verbatim>\<open>TypeError\<close> on \<^verbatim>\<open>null\<close>, the characters of a
  string, \<^verbatim>\<open>undefined\<close> as a query parameter) is outside this model.
\<close>

definition lookup :: "(string \<times> json) list \<Rightarrow> string \<Rightarrow> json option" where
  "lookup ms k = map_of (rev ms) k"

definition int_of :: "json option \<Rightarrow> int option" where
  "int_of v = (case v of Some (JNum q) \<Rightarrow> if q = of_int \<lfloor>q\<rfloor> then Some \<lfloor>q\<rfloor> else None | _ \<Rightarrow> None)"

definition typed_item :: "json \<Rightarrow> cart_item option" where
  "typed_item v =
     (case v of
        JObj ms \<Rightarrow>
          if \<not> list_all (\<lambda>k. k = ''id'' \<or> k = ''quantity'' \<or> k = ''name'' \<or> k = ''price'') (map fst ms)
          then None
          else
            (case (int_of (lookup ms ''id''), int_of (lookup ms ''quantity'')) of
               (Some i, Some q) \<Rightarrow>
                 (case lookup ms ''name'' of
                    None \<Rightarrow>
                      (case lookup ms ''price'' of
                         None \<Rightarrow> Some \<lparr>item_id = i, quantity = q, name = None, item_price = None\<rparr>
                       | Some (JNum p) \<Rightarrow>
                           Some \<lparr>item_id = i, quantity = q, name = None, item_price = Some p\<rparr>
                       | _ \<Rightarrow> None)
                  | Some (JStr n) \<Rightarrow>
                      (case lookup ms ''price'' of
                         None \<Rightarrow> Some \<lparr>item_id = i, quantity = q, name = Some n, item_price = None\<rparr>
                       | Some (JNum p) \<Rightarrow>
                           Some \<lparr>item_id = i, quantity = q, name = Some n, item_price = Some p\<rparr>
                       | _ \<Rightarrow> None)
                  | _ \<Rightarrow> None)
             | _ \<Rightarrow> None)
      | _ \<Rightarrow> None)"

definition typed_items :: "json \<Rightarrow> cart_item list option" where
  "typed_items v = (case v of JArr vs \<Rightarrow> those (map typed_item vs) | _ \<Rightarrow> None)"

definition JSON_parse :: "string \<Rightarrow> cart_item list option" where
  "JSON_parse s = (case JSON_value s of None \<Rightarrow> None | Some v \<Rightarrow> typed_items v)"

subsection \<open>Auxiliary notions for the proofs about the texts\<close>

text \<open>
  A text at which reading a number stops; the value read back from the text of a price
  (the price itself when its decimal expansion ends), and a line item with its price read
  back; the members that the text of a line item parses to; the part of an array text after
  its first element, and the parts of the text of a line item.
\<close>

definition stops :: "string \<Rightarrow> bool" where
  "stops r = (case r of [] \<Rightarrow> True
     | c # _ \<Rightarrow> \<not> is_digit c \<and> c \<noteq> CHR ''.'' \<and> c \<noteq> CHR ''e'' \<and> c \<noteq> CHR ''E'')"

definition reread :: "rat \<Rightarrow> rat" where
  "reread p = (case parse_number (show_rat p) of None \<Rightarrow> p | Some (q, t) \<Rightarrow> q)"

definition members :: "cart_item \<Rightarrow> (string \<times> json) list" where
  "members it =
     [(''id'', JNum (of_int (item_id it)))] @
     (case name it of None \<Rightarrow> [] | Some n \<Rightarrow> [(''name'', JStr n)]) @
     (case item_price it of None \<Rightarrow> [] | Some p \<Rightarrow> [(''price'', JNum (reread p))]) @
     [(''quantity'', JNum (of_int (quantity it)))]"

definition reread_item :: "cart_item \<Rightarrow> cart_item" where
  "reread_item it = it\<lparr>item_price := map_option reread (item_price it)\<rparr>"

definition more_text :: "cart_item list \<Rightarrow> string" where
  "more_text its = concat (map (\<lambda>x. '','' @ stringify_item x) its)"

definition unsigned_text :: "rat \<Rightarrow> string" where
  "unsigned_text a =
     show_nat (nat \<lfloor>a\<rfloor>) @
     (if a - of_nat (nat \<lfloor>a\<rfloor>) = 0 then []
      else ''.'' @ frac_digits (nat (snd (quotient_of (a - of_nat (nat \<lfloor>a\<rfloor>)))))
                     (a - of_nat (nat \<lfloor>a\<rfloor>)))"

definition quantity_text :: "cart_item \<Rightarrow> string" where
  \<open>quantity_text it = ''"quantity":'' @ show_int (quantity it) @ ''}''\<close>

definition price_text :: "cart_item \<Rightarrow> string" where
  \<open>price_text it =
     (case item_price it of None \<Rightarrow> [] | Some p \<Rightarrow> ''"price":'' @ show_rat p @ '','') @
     quantity_text it\<close>

definition name_text :: "cart_item \<Rightarrow> string" where
  \<open>name_text it =
     (case name it of None \<Rightarrow> [] | Some n \<Rightarrow> ''"name":'' @ quote n @ '','') @ price_text it\<close>

section \<open>Storage\<close>

text \<open>The queries that the handlers send, with their parameters.\<close>

datatype sql =
    SelectProduct int
  | UpdateStock int int
  | SelectLatestOrder string
  | InsertOrder "string option" string rat string

text \<open>
  Modelled from the spec: the declarations of the tables \<^verbatim>\<open>products\<close> and \<^verbatim>\<open>orders\<close>, which the
  sources do not contain. Product rows are keyed by \<^verbatim>\<open>id\<close>; an order row gets its \<^verbatim>\<open>id\<close> when
  it is persisted, here from the counter \<open>orders_seq\<close>; the columns are the ones the queries
  name, with no constraint on their values. Queries do not fail.

  \<open>queries\<close> records every call of \<^verbatim>\<open>pool.query\<close>, so that "no storage access" is a statement
  about the state, and \<open>mails\<close> records the calls of \<^verbatim>\<open>sendConfirmationEmail\<close> by their
  recipient.
\<close>

record world =
  products :: "int \<rightharpoonup> product"
  orders :: "order list"
  orders_seq :: nat
  queries :: "sql list"
  mails :: "string option list"

text \<open>\<^verbatim>\<open>SELECT price, stock FROM products WHERE id=$1\<close>; the result is \<^verbatim>\<open>rows[0]\<close>.\<close>

definition select_product :: "int \<Rightarrow> world \<Rightarrow> product option \<times> world" where
  "select_product i w = (products w i, w\<lparr>queries := queries w @ [SelectProduct i]\<rparr>)"

text \<open>\<^verbatim>\<open>UPDATE products SET stock = stock - $1 WHERE id=$2\<close>.\<close>

definition update_stock :: "int \<Rightarrow> int \<Rightarrow> world \<Rightarrow> world" where
  "update_stock q i w =
     w\<lparr>products :=
         (case products w i of
            None \<Rightarrow> products w
          | Some p \<Rightarrow> (products w)(i \<mapsto> p\<lparr>stock := stock p - q\<rparr>)),
       queries := queries w @ [UpdateStock q i]\<rparr>"

text \<open>\<^verbatim>\<open>INSERT INTO orders(email, products, total, status) VALUES($1, $2, $3, $4) RETURNING *\<close>.\<close>

definition insert_order :: "string option \<Rightarrow> string \<Rightarrow> rat \<Rightarrow> string \<Rightarrow> world \<Rightarrow> order \<times> world" where
  "insert_order e ps t st w =
     (let row = \<lparr>order_id = orders_seq w, order_email = e, order_products = ps,
                 total = t, status = st\<rparr>
      in (row, w\<lparr>orders := orders w @ [row], orders_seq := Suc (orders_seq w),
                 queries := queries w @ [InsertOrder e ps t st]\<rparr>))"

text \<open>\<^verbatim>\<open>SELECT products FROM orders WHERE email=$1 ORDER BY id DESC LIMIT 1\<close>.\<close>

fun greatest_id :: "order list \<Rightarrow> order option" where
  "greatest_id [] = None"
| "greatest_id (r # rs) =
     (case greatest_id rs of
        None \<Rightarrow> Some r
      | Some r' \<Rightarrow> if order_id r' < order_id r then Some r else Some r')"

definition select_latest_order :: "string \<Rightarrow> world \<Rightarrow> order option \<times> world" where
  "select_latest_order e w =
     (greatest_id (filter (\<lambda>r. order_email r = Some e) (orders w)),
      w\<lparr>queries := queries w @ [SelectLatestOrder e]\<rparr>)"

definition sendConfirmationEmail :: "string option \<Rightarrow> world \<Rightarrow> world" where
  "sendConfirmationEmail to w = w\<lparr>mails := mails w @ [to]\<rparr>"

section \<open>Requests and responses\<close>

datatype body = Received | Success order | Url string | Error string | Text string | NoBody

datatype response = Response (status_code: nat) (body: body)

text \<open>
  An optional string models a JavaScript value that is a string, \<^verbatim>\<open>null\<close> or \<^verbatim>\<open>undefined\<close>; it
  is truthy when it is \<open>Some t\<close> with \<open>t \<noteq> []\<close>.

  \<^verbatim>\<open>Math.round\<close>: to the nearest integer, halves upwards.
\<close>

definition Math_round :: "rat \<Rightarrow> int" where
  "Math_round x = \<lfloor>x + 1 / 2\<rfloor>"

text \<open>
  The gateway event, after \<^verbatim>\<open>stripe.webhooks.constructEvent\<close> has accepted the signature:
  \<open>event_id\<close> is \<^verbatim>\<open>event.id\<close>, \<open>event_type\<close> is \<^verbatim>\<open>event.type\<close>, and the other two fields are
  \<^verbatim>\<open>customer_email\<close> and \<^verbatim>\<open>metadata?.items\<close> of \<^verbatim>\<open>event.data.object\<close>.
\<close>

record event =
  event_id :: string
  event_type :: string
  customer_email :: "string option"
  metadata_items :: "string option"

record webhook_request =
  http_method :: string
  stripe_signature :: "string option"
  raw_body :: string

text \<open>\<^verbatim>\<open>constructEvent(body, sig, secret)\<close> with the secret fixed: the error message when it
  throws, the event otherwise.\<close>

type_synonym verifier = "string \<Rightarrow> string option \<Rightarrow> string + event"

record order_request =
  req_email :: "string option"
  req_items :: "cart_item list option"
  paymentMethodId :: "string option"

record checkout_request =
  checkout_email :: "string option"
  checkout_items :: "cart_item list option"

record line_item =
  currency :: string
  product_name :: string
  unit_amount :: int
  line_quantity :: int

record session_params =
  payment_method_types :: "string list"
  line_items :: "line_item list"
  mode :: string
  params_customer_email :: "string option"
  success_url :: string
  cancel_url :: string
  params_metadata_items :: string

section \<open>The webhook handlers\<close>

text \<open>
  \<^verbatim>\<open>let items = []; try { if (session.metadata?.items) items = JSON.parse(...) } catch {}\<close>:
  an absent or empty manifest, and one on which \<^verbatim>\<open>JSON.parse\<close> throws, leave the empty list.
  A manifest that is JSON of another shape than a list of line items is outside the model
  (see \<open>JSON_parse\<close>) and is read as the empty list as well; the statements about the rows
  that a delivery stores are made for the manifests that satisfy \<open>readable_manifest\<close>.
\<close>

definition parse_metadata :: "event \<Rightarrow> cart_item list" where
  "parse_metadata ev =
     (case metadata_items ev of
        None \<Rightarrow> []
      | Some s \<Rightarrow>
          if s = [] then []
          else (case JSON_parse s of None \<Rightarrow> [] | Some its \<Rightarrow> its))"

text \<open>The fallback of the server's webhook route: with no items and an email, the item
  list of the latest order of that email, when there is one and its text parses.\<close>

definition db_fallback :: "event \<Rightarrow> cart_item list \<Rightarrow> world \<Rightarrow> cart_item list \<times> world" where
  "db_fallback ev items w =
     (case customer_email ev of
        None \<Rightarrow> (items, w)
      | Some e \<Rightarrow>
          if items = [] \<and> e \<noteq> [] then
            (case select_latest_order e w of
               (None, w1) \<Rightarrow> (items, w1)
             | (Some row, w1) \<Rightarrow>
                 (case JSON_parse (order_products row) of
                    None \<Rightarrow> (items, w1)
                  | Some its \<Rightarrow> (its, w1)))
          else (items, w))"

text \<open>
  The loop of both webhook handlers: a product that is not found is skipped; otherwise the
  total grows by price times quantity and the stock is decremented, whatever it is.
\<close>

fun fulfil_items :: "cart_item list \<Rightarrow> rat \<Rightarrow> world \<Rightarrow> rat \<times> world" where
  "fulfil_items [] t w = (t, w)"
| "fulfil_items (it # its) t w =
     (case select_product (item_id it) w of
        (None, w1) \<Rightarrow> fulfil_items its t w1
      | (Some row, w1) \<Rightarrow>
          fulfil_items its (t + price row * of_int (quantity it))
            (update_stock (quantity it) (item_id it) w1))"

text \<open>\<^verbatim>\<open>app.post('/webhook', ...)\<close> of the server.\<close>

definition webhook :: "verifier \<Rightarrow> webhook_request \<Rightarrow> world \<Rightarrow> response \<times> world" where
  "webhook constructEvent req w =
     (case constructEvent (raw_body req) (stripe_signature req) of
        Inl msg \<Rightarrow> (Response 400 (Text (''Webhook Error: '' @ msg)), w)
      | Inr ev \<Rightarrow>
          if event_type ev = ''checkout.session.completed'' then
            (case db_fallback ev (parse_metadata ev) w of
               (items, w1) \<Rightarrow>
                 (case fulfil_items items 0 w1 of
                    (t, w2) \<Rightarrow>
                      (case insert_order (customer_email ev) (JSON_stringify items) t ''paid'' w2 of
                         (row, w3) \<Rightarrow>
                           (Response 200 Received,
                            sendConfirmationEmail (customer_email ev) w3))))
          else (Response 200 Received, w))"

text \<open>\<^verbatim>\<open>handler\<close> of \<^verbatim>\<open>api/webhook.js\<close>: no fallback and no mail, and a check of the method.\<close>

definition handler :: "verifier \<Rightarrow> webhook_request \<Rightarrow> world \<Rightarrow> response \<times> world" where
  "handler constructEvent req w =
     (if http_method req \<noteq> ''POST'' then (Response 405 NoBody, w)
      else
        (case constructEvent (raw_body req) (stripe_signature req) of
           Inl msg \<Rightarrow> (Response 400 (Text (''Webhook Error: '' @ msg)), w)
         | Inr ev \<Rightarrow>
             if event_type ev = ''checkout.session.completed'' then
               (case fulfil_items (parse_metadata ev) 0 w of
                  (t, w2) \<Rightarrow>
                    (case insert_order (customer_email ev) (JSON_stringify (parse_metadata ev))
                            t ''paid'' w2 of
                       (row, w3) \<Rightarrow> (Response 200 Received, w3)))
             else (Response 200 Received, w)))"

section \<open>The direct order handler\<close>

text \<open>\<^verbatim>\<open>({ id: i.id, quantity: i.quantity })\<close>: an object with these two properties only.\<close>

definition manifest :: "cart_item \<Rightarrow> cart_item" where
  "manifest i = \<lparr>item_id = item_id i, quantity = quantity i, name = None, item_price = None\<rparr>"

text \<open>The first loop: the total, or the first 400 response.\<close>

fun check_items :: "cart_item list \<Rightarrow> rat \<Rightarrow> world \<Rightarrow> (response + rat) \<times> world" where
  "check_items [] t w = (Inr t, w)"
| "check_items (it # its) t w =
     (case select_product (item_id it) w of
        (None, w1) \<Rightarrow>
          (Inl (Response 400 (Error (''Product '' @ show_int (item_id it) @ '' not found''))), w1)
      | (Some row, w1) \<Rightarrow>
          if stock row < quantity it then
            (Inl (Response 400
                    (Error (''Insufficient stock for product '' @ show_int (item_id it)))), w1)
          else check_items its (t + price row * of_int (quantity it)) w1)"

text \<open>The second loop.\<close>

fun decrement_items :: "cart_item list \<Rightarrow> world \<Rightarrow> world" where
  "decrement_items [] w = w"
| "decrement_items (it # its) w = decrement_items its (update_stock (quantity it) (item_id it) w)"

text \<open>
  \<^verbatim>\<open>app.post('/api/orders', ...)\<close>. \<open>paymentIntents_create amount method\<close> tells whether the
  gateway accepts the charge; a refusal is an exception, caught as a 500 response. The
  loops read \<^verbatim>\<open>id\<close> and \<^verbatim>\<open>quantity\<close> of a line item and nothing else; the stored text is
  \<^verbatim>\<open>JSON.stringify(items)\<close>, the line items of the request with the name and the price that
  the client wrote on them.
\<close>

definition post_orders ::
  "(int \<Rightarrow> string \<Rightarrow> bool) \<Rightarrow> order_request \<Rightarrow> world \<Rightarrow> response \<times> world" where
  "post_orders paymentIntents_create req w =
     (case (req_email req, req_items req, paymentMethodId req) of
        (Some email, Some items, Some pm) \<Rightarrow>
          if email = [] \<or> items = [] \<or> pm = [] then
            (Response 400 (Error ''Missing required fields''), w)
          else
            (case check_items items 0 w of
               (Inl r, w1) \<Rightarrow> (r, w1)
             | (Inr t, w1) \<Rightarrow>
                 if \<not> paymentIntents_create (Math_round (t * 100)) pm then
                   (Response 500 (Error ''Error processing order''), w1)
                 else
                   (case insert_order (Some email) (JSON_stringify items) t ''paid''
                           (decrement_items items w1) of
                      (row, w3) \<Rightarrow>
                        (Response 200 (Success row), sendConfirmationEmail (Some email) w3)))
      | _ \<Rightarrow> (Response 400 (Error ''Missing required fields''), w))"

section \<open>The checkout session\<close>

text \<open>
  One gateway line item per requested item. The unit amount comes from the \<^verbatim>\<open>price\<close> of the
  request's item, or from \<open>fallback\<close> when that is absent or zero: the fallback is \<open>0\<close> in
  the current route and \<open>10\<close> in its previous revision.
\<close>

definition line_item_of :: "rat \<Rightarrow> cart_item \<Rightarrow> line_item" where
  "line_item_of fallback i =
     \<lparr>currency = ''usd'',
      product_name =
        (case name i of
           None \<Rightarrow> ''Product '' @ show_int (item_id i)
         | Some n \<Rightarrow> if n = [] then ''Product '' @ show_int (item_id i) else n),
      unit_amount =
        Math_round
          ((case item_price i of
              None \<Rightarrow> fallback
            | Some p \<Rightarrow> if p = 0 then fallback else p) * 100),
      line_quantity = quantity i\<rparr>"

definition checkout_session_params ::
  "rat \<Rightarrow> string \<Rightarrow> string option \<Rightarrow> cart_item list \<Rightarrow> session_params" where
  "checkout_session_params fallback frontend_url email items =
     \<lparr>payment_method_types = [''card''],
      line_items = map (line_item_of fallback) items,
      mode = ''payment'',
      params_customer_email = email,
      success_url = frontend_url @ ''/success'',
      cancel_url = frontend_url @ ''/cancel'',
      params_metadata_items = JSON_stringify (map manifest items)\<rparr>"

text \<open>
  \<^verbatim>\<open>app.post('/api/create-checkout-session', ...)\<close>. \<open>sessions_create\<close> is the gateway: the
  error message, or the URL of the session. A body without items makes \<^verbatim>\<open>items.map\<close>
  throw inside the \<^verbatim>\<open>try\<close>.
\<close>

definition create_checkout_session ::
  "string \<Rightarrow> (session_params \<Rightarrow> string + string) \<Rightarrow> checkout_request \<Rightarrow> world \<Rightarrow> response \<times> world" where
  "create_checkout_session frontend_url sessions_create req w =
     (case checkout_items req of
        None \<Rightarrow> (Response 500 (Error ''Cannot read properties of undefined (reading 'map')''), w)
      | Some items \<Rightarrow>
          (case sessions_create
                  (checkout_session_params 0 frontend_url (checkout_email req) items) of
             Inl msg \<Rightarrow> (Response 500 (Error msg), w)
           | Inr url \<Rightarrow> (Response 200 (Url url), w)))"

section \<open>Notions used in the statements\<close>



text \<open>What the loop of a webhook handler adds up: price times quantity of the line items
  that name a product, the others being skipped. Used in the proofs about the loops.\<close>

fun ledger_total :: "(int \<rightharpoonup> product) \<Rightarrow> 'a item_scheme list \<Rightarrow> rat" where
  "ledger_total led [] = 0"
| "ledger_total led (it # its) =
     (case led (item_id it) of
        None \<Rightarrow> 0
      | Some row \<Rightarrow> price row * of_int (quantity it)) + ledger_total led its"

text \<open>The quantity that a list of line items asks of product \<open>i\<close>.\<close>

fun demand :: "'a item_scheme list \<Rightarrow> int \<Rightarrow> int" where
  "demand [] i = 0"
| "demand (it # its) i = (if item_id it = i then quantity it else 0) + demand its i"



text \<open>The same request delivered \<open>n\<close> times in a row to a webhook handler \<open>h\<close>.\<close>

fun redeliver ::
  "(verifier \<Rightarrow> webhook_request \<Rightarrow> world \<Rightarrow> response \<times> world) \<Rightarrow>
     verifier \<Rightarrow> webhook_request \<Rightarrow> nat \<Rightarrow> world \<Rightarrow> world" where
  "redeliver h constructEvent req 0 w = w"
| "redeliver h constructEvent req (Suc n) w =
     redeliver h constructEvent req n (snd (h constructEvent req w))"

text \<open>Between two states, the order rows of the first are kept and every row written since
  has the status \<^verbatim>\<open>paid\<close>.\<close>

definition paid_rows_only :: "world \<Rightarrow> world \<Rightarrow> bool" where
  "paid_rows_only w w' =
     (take (length (orders w)) (orders w') = orders w \<and>
      list_all (\<lambda>row. status row = ''paid'') (drop (length (orders w)) (orders w')))"

text \<open>
  A text that \<^verbatim>\<open>JSON.parse\<close> rejects or reads as a list of line items; an event whose
  manifest, if it has one, is such a text; a store in which the item text of every order is
  such a text. On these the items of a webhook delivery are the ones of this model. Every
  item text that a handler writes is such a text, so that every handler keeps the store in
  this state (lemmas \<open>webhook_keeps_readable\<close>, \<open>handler_keeps_readable\<close> and
  \<open>post_orders_keeps_readable\<close>).
\<close>

definition readable :: "string \<Rightarrow> bool" where
  "readable s = (JSON_value s = None \<or> JSON_parse s \<noteq> None)"


definition readable_orders :: "world \<Rightarrow> bool" where
  "readable_orders w = list_all (\<lambda>row. readable (order_products row)) (orders w)"


section \<open>Sample data\<close>

text \<open>A shop with one product, five in stock at 20.00, and no order yet.\<close>

definition shop :: world where
  "shop = \<lparr>products = [1 \<mapsto> \<lparr>price = 20, stock = 5\<rparr>], orders = [], orders_seq = 1,
            queries = [], mails = []\<rparr>"

text \<open>A completed checkout for two pieces of product 1, one for six pieces, one without
  a manifest, one whose manifest is cut off, and one whose manifest names a product 9 that
  the shop does not have.\<close>

definition paid_event :: event where
  \<open>paid_event = \<lparr>event_id = ''evt_1'', event_type = ''checkout.session.completed'',
     customer_email = Some ''ann@example.com'',
     metadata_items = Some ''[{"id":1,"quantity":2}]''\<rparr>\<close>


definition bare_event :: event where
  "bare_event = \<lparr>event_id = ''evt_3'', event_type = ''checkout.session.completed'',
     customer_email = Some ''ann@example.com'', metadata_items = None\<rparr>"

definition garbled_event :: event where
  \<open>garbled_event = \<lparr>event_id = ''evt_4'', event_type = ''checkout.session.completed'',
     customer_email = Some ''ann@example.com'',
     metadata_items = Some ''[{"id":1,"quantity":''\<rparr>\<close>


text \<open>A verifier that accepts the signature \<^verbatim>\<open>good\<close> and then yields the given event.\<close>

definition signed :: "event \<Rightarrow> verifier" where
  "signed ev b s = (if s = Some ''good'' then Inr ev else Inl ''No signatures found'')"

definition delivery :: webhook_request where
  "delivery = \<lparr>http_method = ''POST'', stripe_signature = Some ''good'', raw_body = ''{}''\<rparr>"

definition forged :: webhook_request where
  "forged = \<lparr>http_method = ''POST'', stripe_signature = Some ''forged'', raw_body = ''{}''\<rparr>"

definition probe :: webhook_request where
  "probe = \<lparr>http_method = ''GET'', stripe_signature = None, raw_body = []\<rparr>"

definition once :: world where
  "once = snd (webhook (signed paid_event) delivery shop)"

definition twice :: world where
  "twice = snd (webhook (signed paid_event) delivery once)"

text \<open>A cart line of \<open>q\<close> pieces of product 1, with a price of 1.00 written by the client, and
  a direct order for it.\<close>

definition cart_line :: "int \<Rightarrow> cart_item" where
  "cart_line q = \<lparr>item_id = 1, quantity = q, name = None, item_price = Some 1\<rparr>"

definition order_for :: "cart_item list \<Rightarrow> order_request" where
  "order_for items = \<lparr>req_email = Some ''ann@example.com'', req_items = Some items,
     paymentMethodId = Some ''pm_card_visa''\<rparr>"

definition accept :: "int \<Rightarrow> string \<Rightarrow> bool" where
  "accept amount pm = True"

text \<open>A gateway that opens a session for whatever it is asked, and the sample checkout
  request: two pieces of product 1, priced 1.00 by the client.\<close>

definition hosted :: "session_params \<Rightarrow> string + string" where
  "hosted params = Inr ''https://checkout.example/pay''"

definition checkout_for :: "cart_item list \<Rightarrow> checkout_request" where
  "checkout_for items = \<lparr>checkout_email = Some ''ann@example.com'', checkout_items = Some items\<rparr>"


text \<open>A line item without name and price, as the manifest of a checkout session has them.\<close>

definition line :: "int \<Rightarrow> int \<Rightarrow> cart_item" where
  "line i q = \<lparr>item_id = i, quantity = q, name = None, item_price = None\<rparr>"

section \<open>Properties of the JSON texts\<close>

subsection \<open>Reading consumes the text\<close>

lemma length_skip_ws: "length (skip_ws s) \<le> length s"
  by (simp add: skip_ws_def length_dropWhile_le)

lemma prepend_Some: "prepend cs x = Some (k, t) \<Longrightarrow> \<exists>ds. x = Some (ds, t) \<and> k = cs @ ds"
  by (cases x) (auto simp add: prepend_def)

lemma parse_chars_shorter: "parse_chars r = Some (k, t) \<Longrightarrow> length t < length r"
proof (induction r arbitrary: k t rule: parse_chars.induct)
  case 1
  then show ?case by simp
next
  case (2 c r)
  show ?case
  proof (cases "c = CHR 0x22")
    case True
    with "2.prems" show ?thesis by simp
  next
    case nq: False
    show ?thesis
    proof (cases "c = CHR 0x5C")
      case False
      with nq "2.prems" have low: "\<not> (of_char c :: nat) < 32"
        and p: "prepend [c] (parse_chars r) = Some (k, t)"
        by (auto split: if_splits)
      from prepend_Some [OF p] obtain ds where "parse_chars r = Some (ds, t)" by blast
      from "2.IH"(3) [OF nq False low this] show ?thesis by simp
    next
      case bs: True
      show ?thesis
      proof (cases r)
        case Nil
        with nq bs "2.prems" show ?thesis by simp
      next
        case (Cons e r1)
        show ?thesis
        proof (cases "e = CHR ''u''")
          case False
          with nq bs Cons "2.prems" obtain x where x: "unescape e = Some x"
            and p: "prepend [x] (parse_chars r1) = Some (k, t)"
            by (auto split: option.splits)
          from prepend_Some [OF p] obtain ds where "parse_chars r1 = Some (ds, t)" by blast
          from "2.IH"(2) [OF nq bs Cons False x this] Cons show ?thesis by simp
        next
          case u: True
          with nq bs Cons "2.prems" obtain h1 h2 h3 h4 r2 a b c' d
            where r1: "r1 = h1 # h2 # h3 # h4 # r2"
              and h: "hex_val h1 = Some a" "hex_val h2 = Some b" "hex_val h3 = Some c'"
                "hex_val h4 = Some d"
              and p: "prepend (utf8 (((a * 16 + b) * 16 + c') * 16 + d)) (parse_chars r2) = Some (k, t)"
            by (auto split: list.splits option.splits)
          from prepend_Some [OF p] obtain ds where ds: "parse_chars r2 = Some (ds, t)" by blast
          have "length t < length r2"
            by (rule "2.IH"(1) [OF nq bs Cons u r1 refl refl refl _ h(1) _ h(2) _ h(3) h(4) ds])
               simp_all
          with Cons r1 show ?thesis by simp
        qed
      qed
    qed
  qed
qed

lemma frac_part_shorter: "frac_part s = Some (fs, t) \<Longrightarrow> length t \<le> length s"
  by (auto simp add: frac_part_def split: list.splits if_splits
      intro: le_trans [OF length_dropWhile_le])

lemma exp_part_shorter: "exp_part s = Some (e, t) \<Longrightarrow> length t \<le> length s"
  by (auto simp add: exp_part_def split: list.splits if_splits
      intro: le_trans [OF length_dropWhile_le])

lemma dropWhile_shorter: "takeWhile P s \<noteq> [] \<Longrightarrow> length (dropWhile P s) < length s"
  by (cases s) (auto split: if_splits intro: le_imp_less_Suc length_dropWhile_le)

lemma unsigned_number_shorter: "unsigned_number s = Some (q, t) \<Longrightarrow> length t < length s"
proof -
  assume a: "unsigned_number s = Some (q, t)"
  then have ne: "takeWhile is_digit s \<noteq> []"
    by (auto simp add: unsigned_number_def Let_def split: if_splits)
  from a obtain fs s1 e where f: "frac_part (dropWhile is_digit s) = Some (fs, s1)"
    and x: "exp_part s1 = Some (e, t)"
    by (auto simp add: unsigned_number_def Let_def split: if_splits option.splits)
  from dropWhile_shorter [OF ne] frac_part_shorter [OF f] exp_part_shorter [OF x]
  show ?thesis by simp
qed

lemma parse_number_shorter: "parse_number s = Some (q, t) \<Longrightarrow> length t < length s"
  by (cases s)
     (auto simp add: parse_number_def split: if_splits option.splits
       dest: unsigned_number_shorter)

lemma expect_shorter: "expect p s = Some t \<Longrightarrow> length t \<le> length s"
  by (induction p s rule: expect.induct) (auto split: if_splits)

lemma skip_ws_Cons_shorter: "skip_ws r = d # r1 \<Longrightarrow> length r1 < length r"
  using length_skip_ws [of r] by simp

lemma parse_shorter:
  "(\<forall>v t. parse_value s = Some (v, t) \<longrightarrow> length t < length s)"
  "(\<forall>vs t. parse_elems s1 = Some (vs, t) \<longrightarrow> length t < length s1)"
  "(\<forall>ms t. parse_members s2 = Some (ms, t) \<longrightarrow> length t < length s2)"
proof (induction s and s1 and s2 rule: parse_value_parse_elems_parse_members.induct)
  case (1 s)
  show ?case
  proof (intro allI impI)
    fix v t
    assume a: "parse_value s = Some (v, t)"
    then obtain c r where s: "s = c # r" by (cases s) auto
    show "length t < length s"
    proof (cases "c = CHR ''[''")
      case True
      with a s obtain d r1 where d: "skip_ws r = d # r1"
        by (cases "skip_ws r") (auto simp del: parse_elems.simps parse_members.simps)
      show ?thesis
      proof (cases "d = CHR '']''")
        case br: True
        with a s True d have "t = r1" by (simp del: parse_elems.simps parse_members.simps)
        with skip_ws_Cons_shorter [OF d] s show ?thesis by simp
      next
        case False
        with a s True d obtain vs where "parse_elems (skip_ws r) = Some (vs, t)"
          by (auto simp del: parse_elems.simps parse_members.simps split: option.splits)
        with "1.IH"(1) [OF s True d False] have "length t < length (skip_ws r)" by blast
        with length_skip_ws [of r] s show ?thesis by simp
      qed
    next
      case nb: False
      show ?thesis
      proof (cases "c = CHR ''{''")
        case True
        with a s nb obtain d r1 where d: "skip_ws r = d # r1"
          by (cases "skip_ws r") (auto simp del: parse_elems.simps parse_members.simps)
        show ?thesis
        proof (cases "d = CHR ''}''")
          case br: True
          with a s nb True d have "t = r1" by (simp del: parse_elems.simps parse_members.simps)
          with skip_ws_Cons_shorter [OF d] s show ?thesis by simp
        next
          case False
          with a s nb True d obtain ms where "parse_members (skip_ws r) = Some (ms, t)"
            by (auto simp del: parse_elems.simps parse_members.simps split: option.splits)
          with "1.IH"(2) [OF s nb True d False] have "length t < length (skip_ws r)" by blast
          with length_skip_ws [of r] s show ?thesis by simp
        qed
      next
        case False
        with a s nb show ?thesis
          by (auto simp del: parse_elems.simps parse_members.simps
              split: if_splits option.splits
              dest!: parse_chars_shorter parse_number_shorter expect_shorter)
      qed
    qed
  qed
next
  case (2 s)
  show ?case
  proof (intro allI impI)
    fix vs t
    assume a: "parse_elems s = Some (vs, t)"
    then obtain v t0 where v: "parse_value s = Some (v, t0)"
      by (cases "parse_value s") (auto simp del: parse_value.simps)
    with "2.IH"(1) have l0: "length t0 < length s" by blast
    from a v obtain d t1 where d: "skip_ws t0 = d # t1"
      by (cases "skip_ws t0") (auto simp del: parse_value.simps)
    from skip_ws_Cons_shorter [OF d] l0 have l1: "length t1 < length s" by simp
    show "length t < length s"
    proof (cases "d = CHR '']''")
      case True
      with a v d have "t = t1" by (simp del: parse_value.simps)
      with l1 show ?thesis by simp
    next
      case False
      with a v d have c: "d = CHR '',''" "length t1 < length s"
        by (auto simp del: parse_value.simps split: if_splits)
      with a v d False obtain ws where "parse_elems (skip_ws t1) = Some (ws, t)"
        by (auto simp del: parse_value.simps split: option.splits)
      moreover have "d = CHR '','' \<and> length t1 < length s" using c by simp
      note "2.IH"(2) [OF v refl d False this]
      ultimately have "length t < length (skip_ws t1)" by blast
      with length_skip_ws [of t1] l1 show ?thesis by simp
    qed
  qed
next
  case (3 s)
  show ?case
  proof (intro allI impI)
    fix ms t
    assume a: "parse_members s = Some (ms, t)"
    then obtain c r where s: "s = c # r" by (cases s) auto
    with a have q: "c = CHR 0x22" by (auto simp del: parse_value.simps split: if_splits)
    with a s obtain k t0 where k: "parse_chars r = Some (k, t0)"
      by (cases "parse_chars r") (auto simp del: parse_value.simps)
    from parse_chars_shorter [OF k] s have l0: "length t0 < length s" by simp
    from a s q k obtain d t1 where d: "skip_ws t0 = d # t1"
      by (cases "skip_ws t0") (auto simp del: parse_value.simps)
    from a s q k d have c: "d = CHR '':''" "length t1 < length s"
      by (auto simp del: parse_value.simps split: if_splits)
    with a s q k d obtain v u where v: "parse_value (skip_ws t1) = Some (v, u)"
      by (cases "parse_value (skip_ws t1)") (auto simp del: parse_value.simps)
    have cc: "d = CHR '':'' \<and> length t1 < length s" using c by simp
    from "3.IH"(1) [OF s q k refl d cc] v
    have "length u < length (skip_ws t1)" by blast
    with length_skip_ws [of t1] c have lu: "length u < length s" by simp
    from a s q k d c v obtain e u1 where e: "skip_ws u = e # u1"
      by (cases "skip_ws u") (auto simp del: parse_value.simps)
    from skip_ws_Cons_shorter [OF e] lu have l1: "length u1 < length s" by simp
    show "length t < length s"
    proof (cases "e = CHR ''}''")
      case True
      with a s q k d c v e have "t = u1" by (simp del: parse_value.simps)
      with l1 show ?thesis by simp
    next
      case False
      with a s q k d c v e have c2: "e = CHR '','' \<and> length u1 < length s"
        by (auto simp del: parse_value.simps split: if_splits)
      with a s q k d c v e False obtain ns where n: "parse_members (skip_ws u1) = Some (ns, t)"
        by (auto simp del: parse_value.simps split: option.splits)
      from "3.IH"(2) [OF s q k refl d cc v refl e False c2] n
      have "length t < length (skip_ws u1)" by blast
      with length_skip_ws [of u1] l1 show ?thesis by simp
    qed
  qed
qed

lemma parse_elems_eq:
  "parse_elems s =
     (case parse_value s of
        None \<Rightarrow> None
      | Some (v, t) \<Rightarrow>
          (case skip_ws t of
             [] \<Rightarrow> None
           | d # t1 \<Rightarrow>
               if d = CHR '']'' then Some ([v], t1)
               else if d = CHR '','' then
                 (case parse_elems (skip_ws t1) of
                    None \<Rightarrow> None
                  | Some (vs, u) \<Rightarrow> Some (v # vs, u))
               else None))"
proof (cases "parse_value s")
  case None
  then show ?thesis by (subst parse_elems.simps) (simp del: parse_value.simps)
next
  case (Some x)
  obtain v t where x: "x = (v, t)" by (cases x)
  with Some parse_shorter(1) [of s] have l: "length t < length s" by blast
  show ?thesis
  proof (cases "skip_ws t")
    case Nil
    with Some x show ?thesis by (subst parse_elems.simps) (simp del: parse_value.simps)
  next
    case (Cons d t1)
    from skip_ws_Cons_shorter [OF Cons] l have "length t1 < length s" by simp
    with Some x Cons show ?thesis
      by (subst parse_elems.simps) (simp del: parse_value.simps parse_elems.simps)
  qed
qed

lemma parse_members_eq:
  "parse_members (CHR 0x22 # r) =
     (case parse_chars r of
        None \<Rightarrow> None
      | Some (k, t) \<Rightarrow>
          (case skip_ws t of
             [] \<Rightarrow> None
           | d # t1 \<Rightarrow>
               if d = CHR '':'' then
                 (case parse_value (skip_ws t1) of
                    None \<Rightarrow> None
                  | Some (v, u) \<Rightarrow>
                      (case skip_ws u of
                         [] \<Rightarrow> None
                       | e # u1 \<Rightarrow>
                           if e = CHR ''}'' then Some ([(k, v)], u1)
                           else if e = CHR '','' then
                             (case parse_members (skip_ws u1) of
                                None \<Rightarrow> None
                              | Some (ms, x) \<Rightarrow> Some ((k, v) # ms, x))
                           else None))
               else None))"
proof (cases "parse_chars r")
  case None
  then show ?thesis by (subst parse_members.simps) (simp del: parse_value.simps)
next
  case (Some x)
  obtain k t where x: "x = (k, t)" by (cases x)
  from Some x parse_chars_shorter have l: "length t < length r" by blast
  show ?thesis
  proof (cases "skip_ws t")
    case Nil
    with Some x show ?thesis by (subst parse_members.simps) (simp del: parse_value.simps)
  next
    case (Cons d t1)
    from skip_ws_Cons_shorter [OF Cons] l have l1: "length t1 < Suc (length r)" by simp
    show ?thesis
    proof (cases "parse_value (skip_ws t1)")
      case None
      with Some x Cons show ?thesis
        by (subst parse_members.simps) (simp del: parse_value.simps parse_members.simps)
    next
      case v: (Some y)
      obtain v u where y: "y = (v, u)" by (cases y)
      with v parse_shorter(1) [of "skip_ws t1"] have "length u < length (skip_ws t1)" by blast
      with length_skip_ws [of t1] l1 have lu: "length u < Suc (length r)" by simp
      show ?thesis
      proof (cases "skip_ws u")
        case Nil
        with Some x Cons v y l1 show ?thesis
          by (subst parse_members.simps) (simp del: parse_value.simps parse_members.simps)
      next
        case e: (Cons e u1)
        from skip_ws_Cons_shorter [OF e] lu have "length u1 < Suc (length r)" by simp
        with Some x Cons v y l1 e show ?thesis
          by (subst parse_members.simps) (simp del: parse_value.simps parse_members.simps)
      qed
    qed
  qed
qed

subsection \<open>Numbers\<close>

lemma is_digit_digit_char: "d < 10 \<Longrightarrow> is_digit (digit_char d)"
  by (simp add: is_digit_def digit_char_def)

lemma digit_val_digit_char: "d < 10 \<Longrightarrow> digit_val (digit_char d) = d"
  by (simp add: digit_val_def digit_char_def)

lemma show_nat_digits: "list_all is_digit (show_nat n)"
proof (induction n rule: show_nat.induct)
  case (1 n)
  show ?case
  proof (cases "n < 10")
    case True
    then show ?thesis by (subst show_nat.simps) (simp add: is_digit_digit_char)
  next
    case False
    with 1 show ?thesis by (subst show_nat.simps) (simp add: is_digit_digit_char)
  qed
qed

lemma show_nat_nonempty: "show_nat n \<noteq> []"
  by (subst show_nat.simps) simp

lemma read_nat_snoc: "read_nat (ds @ [c]) = read_nat ds * 10 + digit_val c"
  by (simp add: read_nat_def)

lemma read_show_nat: "read_nat (show_nat n) = n"
proof (induction n rule: show_nat.induct)
  case (1 n)
  show ?case
  proof (cases "n < 10")
    case True
    then show ?thesis by (subst show_nat.simps) (simp add: read_nat_def digit_val_digit_char)
  next
    case False
    with 1 show ?thesis
      by (subst show_nat.simps) (simp add: read_nat_snoc digit_val_digit_char)
  qed
qed

lemma digit_char_0: "digit_char 0 = CHR ''0''"
  by code_simp

lemma digit_char_zero: "d < 10 \<Longrightarrow> (digit_char d = CHR ''0'') = (d = 0)"
proof -
  assume "d < 10"
  then have "digit_val (digit_char d) = d" by (rule digit_val_digit_char)
  moreover have "digit_val CHR ''0'' = 0" by (simp add: digit_val_def)
  moreover have "digit_char 0 = CHR ''0''" by (rule digit_char_0)
  ultimately show ?thesis by metis
qed

lemma show_nat_no_leading_zero: "0 < n \<Longrightarrow> hd (show_nat n) \<noteq> CHR ''0''"
proof (induction n rule: show_nat.induct)
  case (1 n)
  show ?case
  proof (cases "n < 10")
    case True
    with 1(2) show ?thesis by (subst show_nat.simps) (simp add: digit_char_zero)
  next
    case False
    then have "0 < n div 10" by simp
    with 1(1) False have "hd (show_nat (n div 10)) \<noteq> CHR ''0''" by simp
    with False show ?thesis
      by (subst show_nat.simps) (simp add: show_nat_nonempty)
  qed
qed

lemma show_nat_zero: "show_nat 0 = ''0''"
  by (subst show_nat.simps) (simp add: digit_char_0)

lemma show_nat_leading: "length (show_nat n) > 1 \<Longrightarrow> hd (show_nat n) \<noteq> CHR ''0''"
  by (cases "n = 0") (simp_all add: show_nat_zero show_nat_no_leading_zero)

lemma stops_not_digit: "stops r \<Longrightarrow> r = [] \<or> \<not> is_digit (hd r)"
  by (cases r) (simp_all add: stops_def)

lemma takeWhile_digits: "list_all is_digit ds \<Longrightarrow> r = [] \<or> \<not> is_digit (hd r) \<Longrightarrow>
    takeWhile is_digit (ds @ r) = ds"
  by (cases r) (simp_all add: list_all_iff takeWhile_append2)

lemma dropWhile_digits: "list_all is_digit ds \<Longrightarrow> r = [] \<or> \<not> is_digit (hd r) \<Longrightarrow>
    dropWhile is_digit (ds @ r) = r"
  by (cases r) (simp_all add: list_all_iff dropWhile_append2)

lemma frac_part_stops: "stops r \<Longrightarrow> frac_part r = Some ([], r)"
  by (cases r) (simp_all add: frac_part_def stops_def)

lemma exp_part_stops: "stops r \<Longrightarrow> exp_part r = Some (0, r)"
  by (cases r) (simp_all add: exp_part_def stops_def)

lemma read_nat_Nil: "read_nat [] = 0"
  by (simp add: read_nat_def)

lemma unsigned_show_nat: "stops r \<Longrightarrow> unsigned_number (show_nat n @ r) = Some (of_nat n, r)"
  using show_nat_leading [of n] show_nat_digits [of n]
  by (auto simp add: unsigned_number_def Let_def takeWhile_digits dropWhile_digits
      stops_not_digit show_nat_nonempty read_show_nat frac_part_stops exp_part_stops
      pow10_def read_nat_Nil)

lemma hd_show_nat_digit: "is_digit (hd (show_nat n))"
  using show_nat_digits [of n] show_nat_nonempty [of n]
  by (cases "show_nat n") (simp_all)

lemma minus_not_digit: "\<not> is_digit CHR ''-''"
  by (simp add: is_digit_def)

lemma parse_show_int: "stops r \<Longrightarrow> parse_number (show_int i @ r) = Some (of_int i, r)"
proof (cases "i < 0")
  case True
  assume "stops r"
  with True show ?thesis by (simp add: parse_number_def show_int_def unsigned_show_nat)
next
  case False
  assume r: "stops r"
  obtain c cs where cs: "show_nat (nat i) = c # cs"
    using show_nat_nonempty [of "nat i"] by (cases "show_nat (nat i)") auto
  with hd_show_nat_digit [of "nat i"] minus_not_digit have "c \<noteq> CHR ''-''" by auto
  moreover have "unsigned_number ((c # cs) @ r) = Some (of_nat (nat i), r)"
    using unsigned_show_nat [OF r, of "nat i"] cs by simp
  ultimately show ?thesis using False cs by (simp add: parse_number_def show_int_def)
qed

lemma frac_digits_digits: "0 \<le> r \<Longrightarrow> r < 1 \<Longrightarrow> list_all is_digit (frac_digits n r)"
proof (induction n arbitrary: r)
  case 0
  show ?case by simp
next
  case (Suc n)
  let ?d = "\<lfloor>r * 10\<rfloor>"
  from Suc.prems have "0 \<le> r * 10" "r * 10 < 10" by simp_all
  then have d: "0 \<le> ?d" "?d < 10" by (simp_all add: floor_less_iff)
  then have "nat ?d < 10" by linarith
  then have dig: "is_digit (digit_char (nat ?d))" by (rule is_digit_digit_char)
  have "0 \<le> r * 10 - of_int ?d" "r * 10 - of_int ?d < 1" by linarith+
  then have "list_all is_digit (frac_digits n (r * 10 - of_int ?d))" by (rule Suc.IH)
  with dig show ?case by simp
qed

lemma frac_digits_nonempty: "r \<noteq> 0 \<Longrightarrow> 0 < n \<Longrightarrow> frac_digits n r \<noteq> []"
  by (cases n) simp_all

lemma point_not_digit: "\<not> is_digit CHR ''.''"
  by (simp add: is_digit_def)

lemma unsigned_show_decimal:
  assumes "stops r" and "list_all is_digit fs" and "fs \<noteq> []"
  shows "unsigned_number (show_nat n @ CHR ''.'' # fs @ r) =
     Some (of_nat n + of_nat (read_nat fs) / 10 ^ length fs, r)"
proof -
  have a: "takeWhile is_digit (show_nat n @ CHR ''.'' # fs @ r) = show_nat n"
    by (rule takeWhile_digits) (simp_all add: show_nat_digits point_not_digit)
  have b: "dropWhile is_digit (show_nat n @ CHR ''.'' # fs @ r) = CHR ''.'' # fs @ r"
    by (rule dropWhile_digits) (simp_all add: show_nat_digits point_not_digit)
  have c: "takeWhile is_digit (fs @ r) = fs" "dropWhile is_digit (fs @ r) = r"
    using assms by (simp_all add: takeWhile_digits dropWhile_digits stops_not_digit)
  have f: "frac_part (CHR ''.'' # fs @ r) = Some (fs, r)"
    using assms(3) by (simp add: frac_part_def c)
  show ?thesis
    using show_nat_leading [of n] assms(1)
    by (simp add: unsigned_number_def Let_def a b f exp_part_stops show_nat_nonempty
        read_show_nat pow10_def)
qed

lemma show_rat_text: "show_rat p = (if p < 0 then ''-'' else []) @ unsigned_text \<bar>p\<bar>"
  by (simp add: show_rat_def unsigned_text_def Let_def)

lemma unsigned_text_read:
  assumes "0 \<le> a"
  shows "\<exists>q. \<forall>r. stops r \<longrightarrow> unsigned_number (unsigned_text a @ r) = Some (q, r)"
proof (cases "a - of_nat (nat \<lfloor>a\<rfloor>) = 0")
  case True
  then show ?thesis by (auto simp add: unsigned_text_def unsigned_show_nat)
next
  case False
  let ?r = "a - of_nat (nat \<lfloor>a\<rfloor>)"
  let ?fs = "frac_digits (nat (snd (quotient_of ?r))) ?r"
  from assms have "0 \<le> \<lfloor>a\<rfloor>" by simp
  then have n: "of_nat (nat \<lfloor>a\<rfloor>) = (of_int \<lfloor>a\<rfloor> :: rat)" by simp
  have r0: "0 \<le> ?r" "?r < 1" unfolding n by linarith+
  then have dig: "list_all is_digit ?fs" by (rule frac_digits_digits)
  have "0 < snd (quotient_of ?r)"
    by (cases "quotient_of ?r") (simp add: quotient_of_denom_pos)
  then have ne: "?fs \<noteq> []" using False by (simp add: frac_digits_nonempty)
  have "\<forall>r. stops r \<longrightarrow> unsigned_number (unsigned_text a @ r) =
      Some (of_nat (nat \<lfloor>a\<rfloor>) + of_nat (read_nat ?fs) / 10 ^ length ?fs, r)"
    using False unsigned_show_decimal [OF _ dig ne, of _ "nat \<lfloor>a\<rfloor>"]
    by (simp add: unsigned_text_def)
  then show ?thesis by blast
qed

lemma hd_unsigned_text: "\<exists>c cs. unsigned_text a = c # cs \<and> c \<noteq> CHR ''-''"
proof -
  obtain c cs where cs: "show_nat (nat \<lfloor>a\<rfloor>) = c # cs"
    using show_nat_nonempty [of "nat \<lfloor>a\<rfloor>"] by (cases "show_nat (nat \<lfloor>a\<rfloor>)") auto
  with hd_show_nat_digit [of "nat \<lfloor>a\<rfloor>"] minus_not_digit have "c \<noteq> CHR ''-''" by auto
  with cs show ?thesis by (simp add: unsigned_text_def)
qed

lemma show_rat_read:
  "\<exists>q. \<forall>r. stops r \<longrightarrow> parse_number (show_rat p @ r) = Some (q, r)"
proof -
  have "0 \<le> \<bar>p\<bar>" by simp
  from unsigned_text_read [OF this] obtain q
    where q: "\<And>r. stops r \<Longrightarrow> unsigned_number (unsigned_text \<bar>p\<bar> @ r) = Some (q, r)"
    by blast
  obtain c cs where c: "unsigned_text \<bar>p\<bar> = c # cs" "c \<noteq> CHR ''-''"
    using hd_unsigned_text by blast
  show ?thesis
  proof (cases "p < 0")
    case True
    with q have "\<forall>r. stops r \<longrightarrow> parse_number (show_rat p @ r) = Some (- q, r)"
      by (simp add: show_rat_text parse_number_def)
    then show ?thesis by blast
  next
    case False
    have "\<forall>r. stops r \<longrightarrow> parse_number (show_rat p @ r) = Some (q, r)"
    proof (intro allI impI)
      fix r assume "stops r"
      from q [OF this] c False show "parse_number (show_rat p @ r) = Some (q, r)"
        by (simp add: show_rat_text parse_number_def)
    qed
    then show ?thesis by blast
  qed
qed

lemma stops_Nil: "stops []"
  by (simp add: stops_def)

lemma parse_show_rat: "stops r \<Longrightarrow> parse_number (show_rat p @ r) = Some (reread p, r)"
proof -
  assume r: "stops r"
  from show_rat_read [of p] obtain q
    where q: "\<And>r. stops r \<Longrightarrow> parse_number (show_rat p @ r) = Some (q, r)"
    by blast
  from q [OF stops_Nil] have "reread p = q" by (simp add: reread_def)
  with q [OF r] show ?thesis by simp
qed

subsection \<open>Strings\<close>

lemma hex_val_hex_digit: "d < 16 \<Longrightarrow> hex_val (hex_digit d) = Some d"
  by (auto simp add: hex_val_def hex_digit_def Let_def)

lemma hex_val_zero: "hex_val CHR ''0'' = Some 0"
  by (simp add: hex_val_def)

lemma parse_chars_esc:
  "parse_chars (CHR 0x5C # e # t) =
     (if e = CHR ''u'' then
        (case t of
           h1 # h2 # h3 # h4 # r2 \<Rightarrow>
             (case (hex_val h1, hex_val h2, hex_val h3, hex_val h4) of
                (Some a, Some b, Some c', Some d) \<Rightarrow>
                  prepend (utf8 (((a * 16 + b) * 16 + c') * 16 + d)) (parse_chars r2)
              | _ \<Rightarrow> None)
         | _ \<Rightarrow> None)
      else (case unescape e of None \<Rightarrow> None | Some x \<Rightarrow> prepend [x] (parse_chars t)))"
  by (subst parse_chars.simps) simp

lemma parse_chars_plain:
  "c \<noteq> CHR 0x22 \<Longrightarrow> c \<noteq> CHR 0x5C \<Longrightarrow> \<not> (of_char c :: nat) < 32 \<Longrightarrow>
     parse_chars (c # t) = prepend [c] (parse_chars t)"
  by (subst parse_chars.simps) simp

lemma parse_chars_end: "parse_chars (CHR 0x22 # r) = Some ([], r)"
  by simp

lemma parse_chars_escape:
  "parse_chars (escape c @ t) = prepend [c] (parse_chars t)"
proof -
  let ?n = "of_char c :: nat"
  consider (q) "c = CHR 0x22" | (b) "c = CHR 0x5C"
    | (ctl) "c \<noteq> CHR 0x22" "c \<noteq> CHR 0x5C" "?n < 32"
    | (plain) "c \<noteq> CHR 0x22" "c \<noteq> CHR 0x5C" "\<not> ?n < 32"
    by blast
  then show ?thesis
  proof cases
    case q
    then show ?thesis by (simp add: escape_def unescape_def parse_chars_esc del: parse_chars.simps)
  next
    case b
    then show ?thesis by (simp add: escape_def unescape_def parse_chars_esc del: parse_chars.simps)
  next
    case plain
    then have "escape c = [c]" by (auto simp add: escape_def)
    with plain show ?thesis by (simp add: parse_chars_plain del: parse_chars.simps)
  next
    case ctl
    consider (named) "c = CHR 0x08 \<or> c = CHR 0x0C \<or> c = CHR 0x0A \<or> c = CHR 0x0D \<or> c = CHR 0x09"
      | (other) "c \<noteq> CHR 0x08" "c \<noteq> CHR 0x0C" "c \<noteq> CHR 0x0A" "c \<noteq> CHR 0x0D" "c \<noteq> CHR 0x09"
      by blast
    then show ?thesis
    proof cases
      case named
      then show ?thesis
        by (auto simp add: escape_def unescape_def parse_chars_esc simp del: parse_chars.simps)
    next
      case other
      with ctl have e: "escape c = [CHR 0x5C, CHR ''u'', CHR ''0'', CHR ''0'',
          hex_digit (?n div 16), hex_digit (?n mod 16)]"
        by (simp add: escape_def)
      from ctl(3) have "?n div 16 < 16" "?n mod 16 < 16" by simp_all
      then have h: "hex_val (hex_digit (?n div 16)) = Some (?n div 16)"
        "hex_val (hex_digit (?n mod 16)) = Some (?n mod 16)"
        by (simp_all add: hex_val_hex_digit)
      have v: "((0 * 16 + 0) * 16 + ?n div 16) * 16 + ?n mod 16 = ?n" by simp
      from ctl(3) have u: "utf8 ?n = [c]" by (simp add: utf8_def)
      have "parse_chars (CHR 0x5C # CHR ''u'' # CHR ''0'' # CHR ''0'' #
          hex_digit (?n div 16) # hex_digit (?n mod 16) # t) =
          prepend (utf8 (((0 * 16 + 0) * 16 + ?n div 16) * 16 + ?n mod 16)) (parse_chars t)"
        by (simp only: parse_chars_esc simp_thms if_True list.case hex_val_zero h option.case
            prod.case)
      then show ?thesis
        unfolding e v u by simp
    qed
  qed
qed

lemma parse_chars_escaped:
  "parse_chars (concat (map escape s) @ CHR 0x22 # r) = Some (s, r)"
  by (induction s)
     (simp_all add: parse_chars_escape parse_chars_end prepend_def del: parse_chars.simps)

lemma parse_chars_quote: "parse_chars (tl (quote s) @ r) = Some (s, r)"
  by (simp add: quote_def parse_chars_escaped del: parse_chars.simps)

subsection \<open>Values, line items and lists\<close>

declare parse_value.simps [simp del] parse_elems.simps [simp del] parse_members.simps [simp del]

lemma skip_ws_id: "\<not> is_ws c \<Longrightarrow> skip_ws (c # r) = c # r"
  by (simp add: skip_ws_def)

lemma digit_no_opener:
  "is_digit c \<or> c = CHR ''-'' \<Longrightarrow>
     c \<noteq> CHR ''['' \<and> c \<noteq> CHR ''{'' \<and> c \<noteq> CHR 0x22 \<and> c \<noteq> CHR ''t'' \<and> c \<noteq> CHR ''f'' \<and>
     c \<noteq> CHR ''n''"
  by (auto simp add: is_digit_def)

lemma parse_value_number:
  "is_digit c \<or> c = CHR ''-'' \<Longrightarrow>
     parse_value (c # r) =
       (case parse_number (c # r) of None \<Rightarrow> None | Some (q, t) \<Rightarrow> Some (JNum q, t))"
  using digit_no_opener [of c] by (subst parse_value.simps) simp

lemma hd_show_int: "\<exists>c cs. show_int i = c # cs \<and> (is_digit c \<or> c = CHR ''-'')"
proof (cases "i < 0")
  case True
  then show ?thesis by (simp add: show_int_def)
next
  case False
  obtain c cs where cs: "show_nat (nat i) = c # cs"
    using show_nat_nonempty [of "nat i"] by (cases "show_nat (nat i)") auto
  with hd_show_nat_digit [of "nat i"] False show ?thesis by (simp add: show_int_def)
qed

lemma hd_show_rat: "\<exists>c cs. show_rat p = c # cs \<and> (is_digit c \<or> c = CHR ''-'')"
proof (cases "p < 0")
  case True
  then show ?thesis by (simp add: show_rat_text)
next
  case False
  obtain c cs where cs: "show_nat (nat \<lfloor>\<bar>p\<bar>\<rfloor>) = c # cs"
    using show_nat_nonempty [of "nat \<lfloor>\<bar>p\<bar>\<rfloor>"] by (cases "show_nat (nat \<lfloor>\<bar>p\<bar>\<rfloor>)") auto
  with hd_show_nat_digit [of "nat \<lfloor>\<bar>p\<bar>\<rfloor>"] False show ?thesis
    by (simp add: show_rat_text unsigned_text_def)
qed

lemma parse_value_show_int:
  "stops r \<Longrightarrow> parse_value (show_int i @ r) = Some (JNum (of_int i), r)"
proof -
  assume r: "stops r"
  obtain c cs where c: "show_int i = c # cs" "is_digit c \<or> c = CHR ''-''"
    using hd_show_int by blast
  from parse_show_int [OF r, of i] c(1)
  have "parse_number (c # cs @ r) = Some (of_int i, r)" by simp
  with parse_value_number [OF c(2), of "cs @ r"] c(1) show ?thesis by simp
qed

lemma parse_value_show_rat:
  "stops r \<Longrightarrow> parse_value (show_rat p @ r) = Some (JNum (reread p), r)"
proof -
  assume r: "stops r"
  obtain c cs where c: "show_rat p = c # cs" "is_digit c \<or> c = CHR ''-''"
    using hd_show_rat by blast
  from parse_show_rat [OF r, of p] c(1)
  have "parse_number (c # cs @ r) = Some (reread p, r)" by simp
  with parse_value_number [OF c(2), of "cs @ r"] c(1) show ?thesis by simp
qed

lemma parse_value_string:
  "parse_value (CHR 0x22 # r) =
     (case parse_chars r of None \<Rightarrow> None | Some (cs, t) \<Rightarrow> Some (JStr cs, t))"
  by (subst parse_value.simps) (simp del: parse_chars.simps)

lemma parse_value_quote: "parse_value (quote n @ r) = Some (JStr n, r)"
  by (simp add: quote_def parse_value_string parse_chars_escaped
      del: parse_value.simps parse_chars.simps)

lemma stops_comma: "stops (CHR '','' # r)" and stops_brace: "stops (CHR ''}'' # r)"
  by (simp_all add: stops_def is_digit_def)

lemma ws_facts:
  "\<not> is_ws CHR '',''" "\<not> is_ws CHR ''}''" "\<not> is_ws CHR '']''" "\<not> is_ws CHR '':''"
  "\<not> is_ws CHR 0x22" "\<not> is_ws CHR ''{''" "\<not> is_ws CHR ''[''"
  by (simp_all add: is_ws_def)

lemma member_step:
  assumes "parse_chars kt = Some (k, CHR '':'' # vt)"
    and "skip_ws vt = vt"
    and "parse_value vt = Some (v, e # u)" and "\<not> is_ws e"
  shows "parse_members (CHR 0x22 # kt) =
     (if e = CHR ''}'' then Some ([(k, v)], u)
      else if e = CHR '','' then
        (case parse_members (skip_ws u) of
           None \<Rightarrow> None
         | Some (ms, x) \<Rightarrow> Some ((k, v) # ms, x))
      else None)"
  using assms
  by (simp add: parse_members_eq skip_ws_id ws_facts
      del: parse_value.simps parse_members.simps parse_chars.simps)

lemma digit_not_ws: "is_digit c \<or> c = CHR ''-'' \<Longrightarrow> \<not> is_ws c"
  by (auto simp add: is_digit_def is_ws_def)

lemma skip_ws_show_int: "skip_ws (show_int i @ x) = show_int i @ x"
  using hd_show_int [of i] by (auto simp add: skip_ws_id digit_not_ws)

lemma skip_ws_show_rat: "skip_ws (show_rat p @ x) = show_rat p @ x"
  using hd_show_rat [of p] by (auto simp add: skip_ws_id digit_not_ws)

lemma skip_ws_quote: "skip_ws (quote n @ x) = quote n @ x"
  by (simp add: quote_def skip_ws_id ws_facts)

lemma keys:
  \<open>parse_chars (''id":'' @ t) = Some (''id'', CHR '':'' # t)\<close>
  \<open>parse_chars (''name":'' @ t) = Some (''name'', CHR '':'' # t)\<close>
  \<open>parse_chars (''price":'' @ t) = Some (''price'', CHR '':'' # t)\<close>
  \<open>parse_chars (''quantity":'' @ t) = Some (''quantity'', CHR '':'' # t)\<close>
  by (simp_all add: prepend_def)

lemma stringify_item_text:
  \<open>stringify_item it = ''{"id":'' @ show_int (item_id it) @ '','' @ name_text it\<close>
  by (simp add: stringify_item_def name_text_def price_text_def quantity_text_def
      split: option.split)

lemma parse_quantity_text:
  "parse_members (quantity_text it @ r) = Some ([(''quantity'', JNum (of_int (quantity it)))], r)"
proof -
  have \<open>parse_members (CHR 0x22 # ''quantity":'' @ show_int (quantity it) @ CHR ''}'' # r) =
      Some ([(''quantity'', JNum (of_int (quantity it)))], r)\<close>
    by (subst member_step [OF keys(4) skip_ws_show_int
          parse_value_show_int [OF stops_brace] ws_facts(2)]) simp
  then show ?thesis by (simp add: quantity_text_def)
qed

lemma hd_quantity_text: "skip_ws (quantity_text it @ r) = quantity_text it @ r"
  by (simp add: quantity_text_def skip_ws_id ws_facts)

lemma hd_price_text: "skip_ws (price_text it @ r) = price_text it @ r"
  by (simp add: price_text_def hd_quantity_text skip_ws_id ws_facts split: option.split)

lemma hd_name_text: "skip_ws (name_text it @ r) = name_text it @ r"
  by (simp add: name_text_def hd_price_text skip_ws_id ws_facts split: option.split)

lemma parse_price_text:
  "parse_members (price_text it @ r) =
     Some ((case item_price it of None \<Rightarrow> [] | Some p \<Rightarrow> [(''price'', JNum (reread p))]) @
           [(''quantity'', JNum (of_int (quantity it)))], r)"
proof (cases "item_price it")
  case None
  then show ?thesis by (simp add: price_text_def parse_quantity_text)
next
  case (Some p)
  have \<open>parse_members (CHR 0x22 # ''price":'' @ show_rat p @ CHR '','' # quantity_text it @ r) =
      Some ([(''price'', JNum (reread p)), (''quantity'', JNum (of_int (quantity it)))], r)\<close>
    by (subst member_step [OF keys(3) skip_ws_show_rat
          parse_value_show_rat [OF stops_comma] ws_facts(1)])
       (simp add: hd_quantity_text parse_quantity_text)
  with Some show ?thesis by (simp add: price_text_def)
qed

lemma parse_name_text:
  "parse_members (name_text it @ r) =
     Some ((case name it of None \<Rightarrow> [] | Some n \<Rightarrow> [(''name'', JStr n)]) @
           (case item_price it of None \<Rightarrow> [] | Some p \<Rightarrow> [(''price'', JNum (reread p))]) @
           [(''quantity'', JNum (of_int (quantity it)))], r)"
proof (cases "name it")
  case None
  then show ?thesis by (simp add: name_text_def parse_price_text)
next
  case (Some n)
  have \<open>parse_members (CHR 0x22 # ''name":'' @ quote n @ CHR '','' # price_text it @ r) =
      Some ((''name'', JStr n) #
            (case item_price it of None \<Rightarrow> [] | Some p \<Rightarrow> [(''price'', JNum (reread p))]) @
            [(''quantity'', JNum (of_int (quantity it)))], r)\<close>
    by (subst member_step [OF keys(2) skip_ws_quote parse_value_quote ws_facts(1)])
       (simp add: hd_price_text parse_price_text)
  with Some show ?thesis by (simp add: name_text_def)
qed

lemma parse_id_text:
  \<open>parse_members (''"id":'' @ show_int (item_id it) @ '','' @ name_text it @ r) =
     Some (members it, r)\<close>
proof -
  have \<open>parse_members (CHR 0x22 # ''id":'' @ show_int (item_id it) @ CHR '','' # name_text it @ r) =
      Some (members it, r)\<close>
    by (subst member_step [OF keys(1) skip_ws_show_int
          parse_value_show_int [OF stops_comma] ws_facts(1)])
       (simp add: hd_name_text parse_name_text members_def)
  then show ?thesis by simp
qed

lemma parse_value_object:
  "skip_ws r = CHR 0x22 # x \<Longrightarrow>
     parse_value (CHR ''{'' # r) =
       (case parse_members (skip_ws r) of None \<Rightarrow> None | Some (ms, t) \<Rightarrow> Some (JObj ms, t))"
  by (subst parse_value.simps) (simp del: parse_members.simps)

lemma parse_stringify_item:
  "parse_value (stringify_item it @ r) = Some (JObj (members it), r)"
proof -
  have sk: \<open>skip_ws (''"id":'' @ show_int (item_id it) @ '','' @ name_text it @ r) =
      ''"id":'' @ show_int (item_id it) @ '','' @ name_text it @ r\<close>
    by (simp add: skip_ws_id ws_facts)
  have \<open>parse_value (CHR ''{'' # ''"id":'' @ show_int (item_id it) @ '','' @ name_text it @ r) =
      Some (JObj (members it), r)\<close>
    by (subst parse_value_object [where x = \<open>''id":'' @ show_int (item_id it) @ '','' @ name_text it @ r\<close>])
       (simp_all only: sk parse_id_text option.case prod.case, simp)
  then show ?thesis by (simp add: stringify_item_text)
qed

lemma stringify_items_Cons:
  "stringify_items (it # its) = stringify_item it @ more_text its"
  by (induction its arbitrary: it) (simp_all add: more_text_def)

lemma hd_stringify_item: "\<exists>x. stringify_item it = CHR ''{'' # x"
  by (simp add: stringify_item_text)

lemma skip_ws_stringify_item: "skip_ws (stringify_item it @ r) = stringify_item it @ r"
  using hd_stringify_item [of it] by (auto simp add: skip_ws_id ws_facts)

lemma parse_elems_items:
  "parse_elems (stringify_item it @ more_text its @ CHR '']'' # r) =
     Some (map (\<lambda>x. JObj (members x)) (it # its), r)"
proof (induction its arbitrary: it)
  case Nil
  show ?case
    by (subst parse_elems_eq) (simp add: more_text_def parse_stringify_item skip_ws_id ws_facts)
next
  case (Cons a its)
  have shape: "more_text (a # its) @ CHR '']'' # r =
      CHR '','' # stringify_item a @ more_text its @ CHR '']'' # r"
    by (simp add: more_text_def)
  show ?case
    by (subst parse_elems_eq)
       (simp add: shape parse_stringify_item skip_ws_id ws_facts skip_ws_stringify_item Cons.IH)
qed

lemma parse_value_array:
  "skip_ws r = d # x \<Longrightarrow> d \<noteq> CHR '']'' \<Longrightarrow>
     parse_value (CHR ''['' # r) =
       (case parse_elems (skip_ws r) of None \<Rightarrow> None | Some (vs, t) \<Rightarrow> Some (JArr vs, t))"
  by (subst parse_value.simps) simp

lemma parse_value_empty_array: "parse_value (CHR ''['' # CHR '']'' # r) = Some (JArr [], r)"
  by (subst parse_value.simps) (simp add: skip_ws_id ws_facts)

lemma JSON_value_stringify:
  "JSON_value (JSON_stringify its) = Some (JArr (map (\<lambda>x. JObj (members x)) its))"
proof (cases its)
  case Nil
  then show ?thesis
    by (simp add: JSON_value_def JSON_stringify_def skip_ws_id ws_facts parse_value_empty_array
        skip_ws_def)
next
  case (Cons it rest)
  obtain x where x: "stringify_item it = CHR ''{'' # x" using hd_stringify_item by blast
  have sk: "skip_ws (stringify_item it @ more_text rest @ '']'') =
      CHR ''{'' # x @ more_text rest @ '']''"
    using skip_ws_stringify_item [of it "more_text rest @ '']''"] x by simp
  have "parse_value (CHR ''['' # stringify_item it @ more_text rest @ '']'') =
      Some (JArr (map (\<lambda>x. JObj (members x)) (it # rest)), [])"
    by (subst parse_value_array [OF sk])
       (simp_all add: skip_ws_stringify_item parse_elems_items)
  then show ?thesis
    by (simp add: JSON_value_def JSON_stringify_def Cons stringify_items_Cons skip_ws_id ws_facts
        skip_ws_def)
qed

lemma int_of_int: "int_of (Some (JNum (of_int i))) = Some i"
  by (simp add: int_of_def)

lemma typed_item_members: "typed_item (JObj (members it)) = Some (reread_item it)"
  by (cases "name it"; cases "item_price it")
     (simp_all add: typed_item_def members_def lookup_def int_of_int reread_item_def)

lemma those_typed_items:
  "those (map (typed_item \<circ> (\<lambda>x. JObj (members x))) its) = Some (map reread_item its)"
  by (induction its) (simp_all add: typed_item_members)

lemma JSON_parse_stringify: "JSON_parse (JSON_stringify its) = Some (map reread_item its)"
  by (simp add: JSON_parse_def JSON_value_stringify typed_items_def those_typed_items)

lemma reread_item_unpriced: "item_price it = None \<Longrightarrow> reread_item it = it"
  by (simp add: reread_item_def)

lemma JSON_parse_stringify_unpriced:
  "list_all (\<lambda>it. item_price it = None) its \<Longrightarrow> JSON_parse (JSON_stringify its) = Some its"
  by (simp add: JSON_parse_stringify list_all_iff reread_item_unpriced map_idI)

lemma manifest_unpriced: "list_all (\<lambda>it. item_price it = None) (map manifest its)"
  by (simp add: list_all_iff manifest_def)

lemma JSON_parse_manifest: "JSON_parse (JSON_stringify (map manifest its)) = Some (map manifest its)"
  by (rule JSON_parse_stringify_unpriced) (rule manifest_unpriced)

section \<open>The effect of the queries and of the loops\<close>

lemma select_product_simps [simp]:
  "fst (select_product i w) = products w i"
  "products (snd (select_product i w)) = products w"
  "orders (snd (select_product i w)) = orders w"
  "orders_seq (snd (select_product i w)) = orders_seq w"
  "mails (snd (select_product i w)) = mails w"
  "queries (snd (select_product i w)) = queries w @ [SelectProduct i]"
  by (simp_all add: select_product_def)

lemma update_stock_simps [simp]:
  "orders (update_stock q i w) = orders w"
  "orders_seq (update_stock q i w) = orders_seq w"
  "mails (update_stock q i w) = mails w"
  "queries (update_stock q i w) = queries w @ [UpdateStock q i]"
  by (simp_all add: update_stock_def)

lemma products_update_stock:
  "products (update_stock q i w) j =
     (if j = i then map_option (\<lambda>row. row\<lparr>stock := stock row - q\<rparr>) (products w i)
      else products w j)"
  by (simp add: update_stock_def split: option.split)

lemma fulfil_items_frame:
  "orders (snd (fulfil_items its t w)) = orders w \<and>
   orders_seq (snd (fulfil_items its t w)) = orders_seq w \<and>
   mails (snd (fulfil_items its t w)) = mails w"
  by (induction its arbitrary: t w) (auto simp add: select_product_def split: option.split)

lemma products_fulfil_items:
  "products (snd (fulfil_items its t w)) i =
     map_option (\<lambda>row. row\<lparr>stock := stock row - demand its i\<rparr>) (products w i)"
proof (induction its arbitrary: t w)
  case Nil
  show ?case by (simp add: option.map_ident)
next
  case (Cons it its)
  show ?case
  proof (cases "products w (item_id it)")
    case None
    then have "products w i = None" if "item_id it = i" using that by simp
    with None Cons.IH show ?thesis
      by (cases "item_id it = i") (simp_all add: select_product_def)
  next
    case (Some row)
    with Cons.IH show ?thesis
      by (cases "products w i")
         (auto simp add: select_product_def products_update_stock option.map_comp o_def)
  qed
qed

lemma ledger_total_cong:
  "(\<And>i. map_option price (led i) = map_option price (led' i)) \<Longrightarrow>
     ledger_total led its = ledger_total led' its"
proof (induction its)
  case Nil
  show ?case by simp
next
  case (Cons it its)
  have "map_option price (led (item_id it)) = map_option price (led' (item_id it))"
    by (rule Cons.prems)
  then have "(case led (item_id it) of None \<Rightarrow> 0 | Some row \<Rightarrow> price row * of_int (quantity it))
      = (case led' (item_id it) of None \<Rightarrow> 0 | Some row \<Rightarrow> price row * of_int (quantity it))"
    by (cases "led (item_id it)"; cases "led' (item_id it)") simp_all
  with Cons show ?case by simp
qed

lemma prices_update_stock:
  "map_option price (products (update_stock q i w) j) = map_option price (products w j)"
  by (simp add: products_update_stock option.map_comp o_def)

lemma total_fulfil_items:
  "fst (fulfil_items its t w) = t + ledger_total (products w) its"
proof (induction its arbitrary: t w)
  case Nil
  show ?case by simp
next
  case (Cons it its)
  show ?case
  proof (cases "products w (item_id it)")
    case None
    with Cons.IH show ?thesis by (simp add: select_product_def)
  next
    case (Some row)
    let ?w1 = "snd (select_product (item_id it) w)"
    have "ledger_total (products (update_stock (quantity it) (item_id it) ?w1)) its
        = ledger_total (products w) its"
      by (rule ledger_total_cong) (simp add: prices_update_stock)
    with Some Cons.IH show ?thesis by (simp add: select_product_def)
  qed
qed

lemma check_items_frame: "snd (check_items its t w) = w\<lparr>queries := queries (snd (check_items its t w))\<rparr>"
proof (induction its arbitrary: t w)
  case Nil
  show ?case by simp
next
  case (Cons it its)
  let ?w1 = "w\<lparr>queries := queries w @ [SelectProduct (item_id it)]\<rparr>"
  show ?case
  proof (cases "products w (item_id it)")
    case None
    then show ?thesis by (simp add: select_product_def)
  next
    case (Some row)
    show ?thesis
    proof (cases "stock row < quantity it")
      case True
      with Some show ?thesis by (simp add: select_product_def)
    next
      case False
      have "snd (check_items its (t + price row * of_int (quantity it)) ?w1)
          = ?w1\<lparr>queries := queries (snd (check_items its (t + price row * of_int (quantity it)) ?w1))\<rparr>"
        by (rule Cons.IH)
      then have "snd (check_items its (t + price row * of_int (quantity it)) ?w1)
          = w\<lparr>queries := queries (snd (check_items its (t + price row * of_int (quantity it)) ?w1))\<rparr>"
        by simp
      with Some False show ?thesis by (simp add: select_product_def)
    qed
  qed
qed

lemma check_items_fields:
  "products (snd (check_items its t w)) = products w"
  "orders (snd (check_items its t w)) = orders w"
  "orders_seq (snd (check_items its t w)) = orders_seq w"
  "mails (snd (check_items its t w)) = mails w"
  by (subst check_items_frame, simp)+

lemma check_items_Inl:
  "fst (check_items its t w) = Inl r \<Longrightarrow> status_code r = 400"
proof (induction its arbitrary: t w)
  case Nil
  then show ?case by simp
next
  case (Cons it its)
  then show ?case
    by (auto simp add: select_product_def split: option.splits if_splits)
qed



lemma decrement_items_frame:
  "orders (decrement_items its w) = orders w \<and>
   orders_seq (decrement_items its w) = orders_seq w \<and>
   mails (decrement_items its w) = mails w"
  by (induction its arbitrary: w) auto

lemma products_decrement_items:
  "products (decrement_items its w) i =
     map_option (\<lambda>row. row\<lparr>stock := stock row - demand its i\<rparr>) (products w i)"
proof (induction its arbitrary: w)
  case Nil
  show ?case by (simp add: option.map_ident)
next
  case (Cons it its)
  show ?case
    by (cases "products w i")
       (auto simp add: Cons.IH products_update_stock option.map_comp o_def)
qed



lemma db_fallback_frame:
  "snd (db_fallback ev its w) = w\<lparr>queries := queries (snd (db_fallback ev its w))\<rparr>"
  by (simp add: db_fallback_def select_latest_order_def split: option.split)

lemma db_fallback_fields:
  "products (snd (db_fallback ev its w)) = products w"
  "orders (snd (db_fallback ev its w)) = orders w"
  "orders_seq (snd (db_fallback ev its w)) = orders_seq w"
  "mails (snd (db_fallback ev its w)) = mails w"
  by (subst db_fallback_frame, simp)+

lemma db_fallback_nonempty: "its \<noteq> [] \<Longrightarrow> db_fallback ev its w = (its, w)"
  by (simp add: db_fallback_def split: option.split)

lemma db_fallback_no_prior:
  "(\<And>row. row \<in> set (orders w) \<Longrightarrow> order_email row \<noteq> customer_email ev) \<Longrightarrow>
     fst (db_fallback ev [] w) = []"
proof -
  assume a: "\<And>row. row \<in> set (orders w) \<Longrightarrow> order_email row \<noteq> customer_email ev"
  show ?thesis
  proof (cases "customer_email ev")
    case None
    then show ?thesis by (simp add: db_fallback_def)
  next
    case (Some e)
    with a have "filter (\<lambda>r. order_email r = Some e) (orders w) = []"
      by (auto simp add: filter_empty_conv)
    with Some show ?thesis by (simp add: db_fallback_def select_latest_order_def)
  qed
qed

lemma insert_order_fields:
  "fst (insert_order e ps t st w) =
     \<lparr>order_id = orders_seq w, order_email = e, order_products = ps, total = t, status = st\<rparr>"
  "products (snd (insert_order e ps t st w)) = products w"
  "orders (snd (insert_order e ps t st w)) = orders w @ [fst (insert_order e ps t st w)]"
  "mails (snd (insert_order e ps t st w)) = mails w"
  "orders_seq (snd (insert_order e ps t st w)) = Suc (orders_seq w)"
  by (simp_all add: insert_order_def Let_def)

lemma sendConfirmationEmail_fields:
  "products (sendConfirmationEmail to w) = products w"
  "orders (sendConfirmationEmail to w) = orders w"
  "orders_seq (sendConfirmationEmail to w) = orders_seq w"
  by (simp_all add: sendConfirmationEmail_def)

lemma webhook_completed:
  assumes "constructEvent (raw_body req) (stripe_signature req) = Inr ev"
    and "event_type ev = ''checkout.session.completed''"
  shows "fst (webhook constructEvent req w) = Response 200 Received"
    and "orders (snd (webhook constructEvent req w)) =
       orders w @ [\<lparr>order_id = orders_seq w, order_email = customer_email ev,
         order_products = JSON_stringify (fst (db_fallback ev (parse_metadata ev) w)),
         total = ledger_total (products w) (fst (db_fallback ev (parse_metadata ev) w)),
         status = ''paid''\<rparr>]"
    and "products (snd (webhook constructEvent req w)) i =
       map_option (\<lambda>row. row\<lparr>stock := stock row - demand (fst (db_fallback ev (parse_metadata ev) w)) i\<rparr>)
         (products w i)"
    and "orders_seq (snd (webhook constructEvent req w)) = Suc (orders_seq w)"
  using assms
  by (simp_all add: webhook_def split_beta sendConfirmationEmail_fields insert_order_fields
      fulfil_items_frame products_fulfil_items total_fulfil_items db_fallback_fields)

lemma handler_completed:
  assumes "http_method req = ''POST''"
    and "constructEvent (raw_body req) (stripe_signature req) = Inr ev"
    and "event_type ev = ''checkout.session.completed''"
  shows "fst (handler constructEvent req w) = Response 200 Received"
    and "orders (snd (handler constructEvent req w)) =
       orders w @ [\<lparr>order_id = orders_seq w, order_email = customer_email ev,
         order_products = JSON_stringify (parse_metadata ev),
         total = ledger_total (products w) (parse_metadata ev),
         status = ''paid''\<rparr>]"
    and "products (snd (handler constructEvent req w)) i =
       map_option (\<lambda>row. row\<lparr>stock := stock row - demand (parse_metadata ev) i\<rparr>)
         (products w i)"
    and "orders_seq (snd (handler constructEvent req w)) = Suc (orders_seq w)"
  using assms
  by (simp_all add: handler_def split_beta insert_order_fields
      fulfil_items_frame products_fulfil_items total_fulfil_items)

lemma webhook_other:
  assumes "constructEvent (raw_body req) (stripe_signature req) = Inr ev"
    and "event_type ev \<noteq> ''checkout.session.completed''"
  shows "webhook constructEvent req w = (Response 200 Received, w)"
  using assms by (simp add: webhook_def)

lemma webhook_rejected:
  assumes "constructEvent (raw_body req) (stripe_signature req) = Inl msg"
  shows "webhook constructEvent req w = (Response 400 (Text (''Webhook Error: '' @ msg)), w)"
  using assms by (simp add: webhook_def)

lemma post_orders_success:
  assumes "req_email req = Some email" and "req_items req = Some items"
    and "paymentMethodId req = Some pm"
    and "email \<noteq> []" and "items \<noteq> []" and "pm \<noteq> []"
    and "fst (check_items items 0 w) = Inr t"
    and "charge (Math_round (t * 100)) pm"
  shows "fst (post_orders charge req w) =
       Response 200 (Success \<lparr>order_id = orders_seq w, order_email = Some email,
         order_products = JSON_stringify items, total = t, status = ''paid''\<rparr>)"
    and "orders (snd (post_orders charge req w)) =
       orders w @ [\<lparr>order_id = orders_seq w, order_email = Some email,
         order_products = JSON_stringify items, total = t, status = ''paid''\<rparr>]"
    and "products (snd (post_orders charge req w)) i =
       map_option (\<lambda>row. row\<lparr>stock := stock row - demand items i\<rparr>) (products w i)"
proof -
  obtain w1 where c: "check_items items 0 w = (Inr t, w1)"
    using assms(7) by (cases "check_items items 0 w") simp
  then have w1: "w1 = snd (check_items items 0 w)" by simp
  have eq: "post_orders charge req w =
      (case insert_order (Some email) (JSON_stringify items) t ''paid''
              (decrement_items items w1) of
         (row, w3) \<Rightarrow> (Response 200 (Success row), sendConfirmationEmail (Some email) w3))"
    using assms c by (simp add: post_orders_def)
  show "fst (post_orders charge req w) =
       Response 200 (Success \<lparr>order_id = orders_seq w, order_email = Some email,
         order_products = JSON_stringify items, total = t, status = ''paid''\<rparr>)"
    unfolding eq
    by (simp add: split_beta insert_order_fields decrement_items_frame w1 check_items_fields)
  show "orders (snd (post_orders charge req w)) =
       orders w @ [\<lparr>order_id = orders_seq w, order_email = Some email,
         order_products = JSON_stringify items, total = t, status = ''paid''\<rparr>]"
    unfolding eq
    by (simp add: split_beta insert_order_fields sendConfirmationEmail_fields
        decrement_items_frame w1 check_items_fields)
  show "products (snd (post_orders charge req w)) i =
       map_option (\<lambda>row. row\<lparr>stock := stock row - demand items i\<rparr>) (products w i)"
    unfolding eq
    by (simp add: split_beta insert_order_fields sendConfirmationEmail_fields
        products_decrement_items w1 check_items_fields)
qed

lemma post_orders_failure:
  assumes "\<not> (\<exists>email items pm t. req_email req = Some email \<and> req_items req = Some items \<and>
      paymentMethodId req = Some pm \<and> email \<noteq> [] \<and> items \<noteq> [] \<and> pm \<noteq> [] \<and>
      fst (check_items items 0 w) = Inr t \<and> charge (Math_round (t * 100)) pm)"
  shows "(status_code (fst (post_orders charge req w)) = 400 \<or>
          status_code (fst (post_orders charge req w)) = 500) \<and>
         products (snd (post_orders charge req w)) = products w \<and>
         orders (snd (post_orders charge req w)) = orders w \<and>
         orders_seq (snd (post_orders charge req w)) = orders_seq w"
proof (cases "\<exists>email items pm. req_email req = Some email \<and> req_items req = Some items \<and>
      paymentMethodId req = Some pm \<and> email \<noteq> [] \<and> items \<noteq> [] \<and> pm \<noteq> []")
  case False
  then have "post_orders charge req w = (Response 400 (Error ''Missing required fields''), w)"
    by (auto simp add: post_orders_def split: option.splits)
  then show ?thesis by simp
next
  case True
  then obtain email items pm where v: "req_email req = Some email" "req_items req = Some items"
      "paymentMethodId req = Some pm" "email \<noteq> []" "items \<noteq> []" "pm \<noteq> []"
    by blast
  obtain x w1 where c: "check_items items 0 w = (x, w1)"
    by (cases "check_items items 0 w") simp
  then have w1: "w1 = snd (check_items items 0 w)" and x: "x = fst (check_items items 0 w)"
    by simp_all
  show ?thesis
  proof (cases x)
    case (Inl r)
    with x have "status_code r = 400" by (simp add: check_items_Inl)
    moreover from v c Inl have "post_orders charge req w = (r, w1)"
      by (simp add: post_orders_def)
    ultimately show ?thesis by (simp add: w1 check_items_fields)
  next
    case (Inr t)
    with assms v x have "\<not> charge (Math_round (t * 100)) pm" by auto
    with v c Inr have "post_orders charge req w = (Response 500 (Error ''Error processing order''), w1)"
      by (simp add: post_orders_def)
    then show ?thesis by (simp add: w1 check_items_fields)
  qed
qed

section \<open>Order rows are written with the status paid\<close>

lemma paid_rows_only_refl: "paid_rows_only w w"
  by (simp add: paid_rows_only_def)

lemma paid_rows_only_append:
  "orders w' = orders w @ [row] \<Longrightarrow> status row = ''paid'' \<Longrightarrow> paid_rows_only w w'"
  by (simp add: paid_rows_only_def)

lemma paid_rows_only_same: "orders w' = orders w \<Longrightarrow> paid_rows_only w w'"
  by (simp add: paid_rows_only_def)

lemma webhook_paid_rows: "paid_rows_only w (snd (webhook constructEvent req w))"
proof (cases "constructEvent (raw_body req) (stripe_signature req)")
  case (Inl msg)
  then show ?thesis by (simp add: webhook_rejected paid_rows_only_refl)
next
  case (Inr ev)
  show ?thesis
  proof (cases "event_type ev = ''checkout.session.completed''")
    case True
    show ?thesis
      by (rule paid_rows_only_append
            [OF webhook_completed(2) [where constructEvent = constructEvent, OF Inr True]]) simp
  next
    case False
    with Inr show ?thesis by (simp add: webhook_other paid_rows_only_refl)
  qed
qed

lemma handler_paid_rows: "paid_rows_only w (snd (handler constructEvent req w))"
proof (cases "http_method req = ''POST''")
  case False
  then show ?thesis by (simp add: handler_def paid_rows_only_refl)
next
  case True
  show ?thesis
  proof (cases "constructEvent (raw_body req) (stripe_signature req)")
    case (Inl msg)
    with True show ?thesis by (simp add: handler_def paid_rows_only_refl)
  next
    case (Inr ev)
    show ?thesis
    proof (cases "event_type ev = ''checkout.session.completed''")
      case c: True
      show ?thesis
        by (rule paid_rows_only_append
              [OF handler_completed(2) [where constructEvent = constructEvent, OF True Inr c]]) simp
    next
      case False
      with True Inr show ?thesis by (simp add: handler_def paid_rows_only_refl)
    qed
  qed
qed

lemma post_orders_paid_rows: "paid_rows_only w (snd (post_orders charge req w))"
proof (cases "\<exists>email items pm t. req_email req = Some email \<and> req_items req = Some items \<and>
      paymentMethodId req = Some pm \<and> email \<noteq> [] \<and> items \<noteq> [] \<and> pm \<noteq> [] \<and>
      fst (check_items items 0 w) = Inr t \<and> charge (Math_round (t * 100)) pm")
  case False
  from post_orders_failure [OF False] show ?thesis by (simp add: paid_rows_only_same)
next
  case True
  then obtain email items pm t where v: "req_email req = Some email" "req_items req = Some items"
      "paymentMethodId req = Some pm" "email \<noteq> []" "items \<noteq> []" "pm \<noteq> []"
      "fst (check_items items 0 w) = Inr t" "charge (Math_round (t * 100)) pm"
    by blast
  show ?thesis
    by (rule paid_rows_only_append
          [OF post_orders_success(2) [where charge = charge, OF v]]) simp
qed

text \<open>
  Claim C9. Every order row written by the direct order handler or by either webhook handler
  has the status \<^verbatim>\<open>paid\<close>: after any request, the rows that were there are unchanged and
  each row added is a paid one. Creating a checkout session writes no row at all.
\<close>

theorem every_written_order_is_paid:
  "paid_rows_only w (snd (post_orders charge oreq w)) \<and>
   paid_rows_only w (snd (webhook constructEvent req w)) \<and>
   paid_rows_only w (snd (handler constructEvent req w)) \<and>
   paid_rows_only w (snd (create_checkout_session frontend_url sessions_create creq w))"
proof -
  have "snd (create_checkout_session frontend_url sessions_create creq w) = w"
    by (simp add: create_checkout_session_def split: option.split sum.split)
  then show ?thesis
    by (simp add: post_orders_paid_rows webhook_paid_rows handler_paid_rows paid_rows_only_refl)
qed

section \<open>Rejected deliveries\<close>

text \<open>
  Claim C10. The standalone handler answers a request whose method is not POST with status
  405 and leaves the whole state as it was (no query, no row, no mail); the answer does not
  depend on the verifier, which is never consulted.
\<close>

theorem handler_method_not_allowed:
  "http_method req \<noteq> ''POST'' \<Longrightarrow>
     handler constructEvent req w = (Response 405 NoBody, w) \<and>
     handler constructEvent' req w = handler constructEvent req w"
  by (simp add: handler_def)

theorem handler_method_not_allowed_witness:
  "http_method probe \<noteq> ''POST'' \<and>
   handler (signed paid_event) probe shop = (Response 405 NoBody, shop) \<and>
   handler (signed bare_event) probe shop = handler (signed paid_event) probe shop"
proof -
  have h: "http_method probe \<noteq> ''POST''" by (simp add: probe_def)
  from handler_method_not_allowed [OF h, of "signed paid_event" shop "signed bare_event"] h
  show ?thesis by simp
qed

text \<open>
  Claim C7. When the verifier rejects the signature, the webhook route answers 400 and the
  state is the one it started from: the log of queries has not grown, so no product row and
  no order row was read or written. The standalone handler does the same for a POST request
  (and answers 405 to any other method).
\<close>

theorem bad_signature_no_storage_access:
  "constructEvent (raw_body req) (stripe_signature req) = Inl msg \<Longrightarrow>
     webhook constructEvent req w = (Response 400 (Text (''Webhook Error: '' @ msg)), w) \<and>
     handler constructEvent req w =
       (if http_method req = ''POST'' then Response 400 (Text (''Webhook Error: '' @ msg))
        else Response 405 NoBody, w)"
  by (simp add: webhook_def handler_def)

theorem bad_signature_no_storage_access_witness:
  "signed paid_event (raw_body forged) (stripe_signature forged) = Inl ''No signatures found'' \<and>
   webhook (signed paid_event) forged shop =
     (Response 400 (Text ''Webhook Error: No signatures found''), shop) \<and>
   handler (signed paid_event) forged shop =
     (Response 400 (Text ''Webhook Error: No signatures found''), shop) \<and>
   queries shop = []"
proof -
  have h: "signed paid_event (raw_body forged) (stripe_signature forged) = Inl ''No signatures found''"
    by (simp add: signed_def forged_def)
  have m: "http_method forged = ''POST''" by (simp add: forged_def)
  from bad_signature_no_storage_access
         [where constructEvent = "signed paid_event" and req = forged and w = shop, OF h] h m
  show ?thesis by (simp add: shop_def)
qed

section \<open>Repeated deliveries of one event\<close>

lemma JSON_value_Nil: "JSON_value [] = None"
  by (simp add: JSON_value_def skip_ws_def parse_value.simps)

lemma JSON_parse_throws: "JSON_value s = None \<Longrightarrow> JSON_parse s = None"
  by (simp add: JSON_parse_def)

lemma parse_metadata_Some:
  "metadata_items ev = Some s \<Longrightarrow> JSON_parse s = Some items \<Longrightarrow> parse_metadata ev = items"
  by (auto simp add: parse_metadata_def JSON_parse_throws JSON_value_Nil)

lemma stock_twice:
  "map_option (\<lambda>row. row\<lparr>stock := stock row - b\<rparr>) (map_option (\<lambda>row. row\<lparr>stock := stock row - a\<rparr>) x)
     = map_option (\<lambda>row. row\<lparr>stock := stock row - (a + b)\<rparr>) x"
  by (cases x) simp_all

lemma redeliver_webhook:
  assumes "constructEvent (raw_body req) (stripe_signature req) = Inr ev"
    and "event_type ev = ''checkout.session.completed''"
    and "parse_metadata ev = items" and "items \<noteq> []"
  shows "length (orders (redeliver webhook constructEvent req n w)) = length (orders w) + n \<and>
     products (redeliver webhook constructEvent req n w) i =
       map_option (\<lambda>row. row\<lparr>stock := stock row - int n * demand items i\<rparr>) (products w i)"
proof (induction n arbitrary: w)
  case 0
  show ?case by (simp add: option.map_ident)
next
  case (Suc n)
  have items: "fst (db_fallback ev (parse_metadata ev) w) = items"
    using assms(3,4) by (simp add: db_fallback_nonempty)
  note step = webhook_completed [where constructEvent = constructEvent, OF assms(1,2), of w]
  show ?case
    by (simp add: Suc.IH step(2,3) items stock_twice algebra_simps)
qed

lemma redeliver_handler:
  assumes "http_method req = ''POST''"
    and "constructEvent (raw_body req) (stripe_signature req) = Inr ev"
    and "event_type ev = ''checkout.session.completed''"
    and "parse_metadata ev = items"
  shows "length (orders (redeliver handler constructEvent req n w)) = length (orders w) + n \<and>
     products (redeliver handler constructEvent req n w) i =
       map_option (\<lambda>row. row\<lparr>stock := stock row - int n * demand items i\<rparr>) (products w i)"
proof (induction n arbitrary: w)
  case 0
  show ?case by (simp add: option.map_ident)
next
  case (Suc n)
  note step = handler_completed [where constructEvent = constructEvent, OF assms(1,2,3), of w]
  show ?case
    by (simp add: Suc.IH step(2,3) assms(4) stock_twice algebra_simps)
qed

lemma paid_manifest: \<open>JSON_parse ''[{"id":1,"quantity":2}]'' = Some [line 1 2]\<close>
  by code_simp

text \<open>
  Claim C1, as stated: the second delivery of an event changes neither table. It fails: the
  handler reads no event id and keeps no record of applied events. Delivered twice to the
  sample shop, the event \<open>evt_1\<close> leaves two order rows and has taken its two pieces from
  the stock twice.
\<close>

theorem redelivery_counterexample:
  "orders twice \<noteq> orders once \<and> products twice \<noteq> products once \<and>
   length (orders once) = 1 \<and> length (orders twice) = 2 \<and>
   products once 1 = Some \<lparr>price = 20, stock = 3\<rparr> \<and>
   products twice 1 = Some \<lparr>price = 20, stock = 1\<rparr>"
proof -
  have v: "length (orders once) = 1" "length (orders twice) = 2"
    "products once 1 = Some \<lparr>price = 20, stock = 3\<rparr>"
    "products twice 1 = Some \<lparr>price = 20, stock = 1\<rparr>"
    by code_simp+
  from v(1,2) have "orders twice \<noteq> orders once" by auto
  moreover from v(3,4) have "products twice \<noteq> products once" by auto
  ultimately show ?thesis using v by simp
qed

text \<open>
  Claim C1, amended. Every delivery of a verified \<^verbatim>\<open>checkout.session.completed\<close> event
  whose manifest parses to a non-empty item list is fulfilled again: after \<open>n\<close> deliveries
  there are \<open>n\<close> more order rows, and the stock of each product has gone down by \<open>n\<close> times
  the quantity the manifest asks of it. This holds for the webhook route of the server and
  for the standalone handler.
\<close>

theorem every_delivery_fulfils_again:
  assumes "constructEvent (raw_body req) (stripe_signature req) = Inr ev"
    and "event_type ev = ''checkout.session.completed''"
    and "metadata_items ev = Some s" and "JSON_parse s = Some items" and "items \<noteq> []"
  shows "length (orders (redeliver webhook constructEvent req n w)) = length (orders w) + n \<and>
     products (redeliver webhook constructEvent req n w) i =
       map_option (\<lambda>row. row\<lparr>stock := stock row - int n * demand items i\<rparr>) (products w i) \<and>
     (http_method req = ''POST'' \<longrightarrow>
       length (orders (redeliver handler constructEvent req n w)) = length (orders w) + n \<and>
       products (redeliver handler constructEvent req n w) i =
         map_option (\<lambda>row. row\<lparr>stock := stock row - int n * demand items i\<rparr>) (products w i))"
proof -
  have p: "parse_metadata ev = items" using assms(3,4) by (rule parse_metadata_Some)
  from redeliver_webhook [where constructEvent = constructEvent, OF assms(1,2) p assms(5)]
       redeliver_handler [where constructEvent = constructEvent, OF _ assms(1,2) p]
  show ?thesis by blast
qed

theorem every_delivery_fulfils_again_witness:
  \<open>signed paid_event (raw_body delivery) (stripe_signature delivery) = Inr paid_event \<and>
   event_type paid_event = ''checkout.session.completed'' \<and>
   metadata_items paid_event = Some ''[{"id":1,"quantity":2}]'' \<and>
   JSON_parse ''[{"id":1,"quantity":2}]'' = Some [line 1 2] \<and>
   http_method delivery = ''POST'' \<and>
   length (orders (redeliver webhook (signed paid_event) delivery 2 shop)) = 2 \<and>
   products (redeliver webhook (signed paid_event) delivery 2 shop) 1 = Some \<lparr>price = 20, stock = 1\<rparr> \<and>
   length (orders (redeliver handler (signed paid_event) delivery 2 shop)) = 2 \<and>
   products (redeliver handler (signed paid_event) delivery 2 shop) 1 = Some \<lparr>price = 20, stock = 1\<rparr>\<close>
proof -
  have a: "signed paid_event (raw_body delivery) (stripe_signature delivery) = Inr paid_event"
    by (simp add: signed_def delivery_def)
  have b: "event_type paid_event = ''checkout.session.completed''"
    by (simp add: paid_event_def)
  have c: \<open>metadata_items paid_event = Some ''[{"id":1,"quantity":2}]''\<close>
    by (simp add: paid_event_def)
  have d: "[line 1 2] \<noteq> []" by simp
  have m: "http_method delivery = ''POST''" by (simp add: delivery_def)
  from every_delivery_fulfils_again
         [where constructEvent = "signed paid_event" and req = delivery and n = 2 and w = shop
            and i = 1, OF a b c paid_manifest d]
       a b c paid_manifest m
  show ?thesis by (simp add: shop_def line_def)
qed

section \<open>An event without a usable manifest\<close>

lemma empty_text: "JSON_stringify [] = ''[]''"
  by (simp add: JSON_stringify_def)

text \<open>
  Claim C3, as stated: with no manifest and no earlier order of the email, no order row is
  created. It fails: the insert is not guarded. For the sample event without metadata the
  handler acknowledges and writes a row with the item text \<^verbatim>\<open>[]\<close> and total 0.
\<close>

theorem missing_manifest_counterexample:
  "metadata_items bare_event = None \<and> orders shop = [] \<and>
   fst (webhook (signed bare_event) delivery shop) = Response 200 Received \<and>
   orders (snd (webhook (signed bare_event) delivery shop)) =
     [\<lparr>order_id = 1, order_email = Some ''ann@example.com'', order_products = ''[]'',
       total = 0, status = ''paid''\<rparr>]"
  by code_simp

text \<open>
  Claim C3, amended. For a verified \<^verbatim>\<open>checkout.session.completed\<close> event whose manifest is
  absent or unparsable (\<^verbatim>\<open>JSON.parse\<close> throws on it), and for whose email the store holds no
  order, the webhook route changes no product row and acknowledges with status 200, and it
  appends exactly one order row: the item text \<^verbatim>\<open>[]\<close>, total 0, status \<^verbatim>\<open>paid\<close>.
\<close>

theorem missing_manifest_writes_empty_order:
  assumes "constructEvent (raw_body req) (stripe_signature req) = Inr ev"
    and "event_type ev = ''checkout.session.completed''"
    and "metadata_items ev = None \<or> (\<exists>s. metadata_items ev = Some s \<and> JSON_value s = None)"
    and "\<forall>row \<in> set (orders w). order_email row \<noteq> customer_email ev"
  shows "fst (webhook constructEvent req w) = Response 200 Received \<and>
     products (snd (webhook constructEvent req w)) = products w \<and>
     orders (snd (webhook constructEvent req w)) =
       orders w @ [\<lparr>order_id = orders_seq w, order_email = customer_email ev,
                    order_products = ''[]'', total = 0, status = ''paid''\<rparr>]"
proof -
  from assms(3) have p: "parse_metadata ev = []"
    by (auto simp add: parse_metadata_def JSON_parse_throws)
  from assms(4) have "fst (db_fallback ev [] w) = []"
    by (intro db_fallback_no_prior) simp
  with p have items: "fst (db_fallback ev (parse_metadata ev) w) = []" by simp
  note step = webhook_completed [where constructEvent = constructEvent, OF assms(1,2), of w]
  have "products (snd (webhook constructEvent req w)) i = products w i" for i
    by (simp add: step(3) items option.map_ident)
  then have "products (snd (webhook constructEvent req w)) = products w" by (rule ext)
  then show ?thesis by (simp add: step(1,2) items empty_text)
qed

theorem missing_manifest_writes_empty_order_witness:
  \<open>signed garbled_event (raw_body delivery) (stripe_signature delivery) = Inr garbled_event \<and>
   event_type garbled_event = ''checkout.session.completed'' \<and>
   metadata_items garbled_event = Some ''[{"id":1,"quantity":'' \<and>
   JSON_value ''[{"id":1,"quantity":'' = None \<and> orders shop = [] \<and>
   fst (webhook (signed garbled_event) delivery shop) = Response 200 Received \<and>
   products (snd (webhook (signed garbled_event) delivery shop)) = products shop \<and>
   orders (snd (webhook (signed garbled_event) delivery shop)) =
     [\<lparr>order_id = 1, order_email = Some ''ann@example.com'', order_products = ''[]'',
       total = 0, status = ''paid''\<rparr>]\<close>
proof -
  have a: "signed garbled_event (raw_body delivery) (stripe_signature delivery) = Inr garbled_event"
    by (simp add: signed_def delivery_def)
  have b: "event_type garbled_event = ''checkout.session.completed''"
    by (simp add: garbled_event_def)
  have g: \<open>JSON_value ''[{"id":1,"quantity":'' = None\<close>
    by code_simp
  have f: \<open>metadata_items garbled_event = Some ''[{"id":1,"quantity":''\<close>
    "customer_email garbled_event = Some ''ann@example.com''"
    by (simp_all add: garbled_event_def)
  from f(1) g have c: "metadata_items garbled_event = None \<or>
      (\<exists>s. metadata_items garbled_event = Some s \<and> JSON_value s = None)"
    by simp
  have d: "\<forall>row \<in> set (orders shop). order_email row \<noteq> customer_email garbled_event"
    by (simp add: shop_def)
  have e: "orders shop = []" "orders_seq shop = 1" by (simp_all add: shop_def)
  from missing_manifest_writes_empty_order
         [where constructEvent = "signed garbled_event" and req = delivery and w = shop,
          OF a b c d]
       a b e f g
  show ?thesis by simp
qed

section \<open>Stock under direct orders\<close>






text \<open>
  The direct order handler compares each line with the stock before any decrement, so two
  lines for the same product are each compared with the full stock: two lines of three
  pieces pass against a stock of five.
\<close>

lemma repeated_line_overdraws:
  "fst (post_orders accept (order_for [cart_line 3, cart_line 3]) shop) =
     Response 200 (Success \<lparr>order_id = 1, order_email = Some ''ann@example.com'',
       order_products = JSON_stringify [cart_line 3, cart_line 3],
       total = 120, status = ''paid''\<rparr>) \<and>
   products (snd (post_orders accept (order_for [cart_line 3, cart_line 3]) shop)) 1 =
     Some \<lparr>price = 20, stock = - 1\<rparr>"
  by code_simp



text \<open>
  Claim C6. A well-formed direct order for a single existing product: when the quantity
  equals the stock and the gateway accepts the charge, the order succeeds and the stock
  becomes 0; when the quantity is the stock plus one, the answer is the 400 response
  \<^verbatim>\<open>Insufficient stock for product ...\<close> and neither table changes.
\<close>

theorem order_at_stock_boundary:
  assumes "req_email req = Some email" and "email \<noteq> []"
    and "paymentMethodId req = Some pm" and "pm \<noteq> []"
    and "req_items req = Some [it]" and "products w (item_id it) = Some row"
  shows "(quantity it = stock row \<and> charge (Math_round (price row * of_int (quantity it) * 100)) pm \<longrightarrow>
       (\<exists>r. fst (post_orders charge req w) = Response 200 (Success r)) \<and>
       products (snd (post_orders charge req w)) (item_id it) = Some (row\<lparr>stock := 0\<rparr>)) \<and>
     (quantity it = stock row + 1 \<longrightarrow>
       fst (post_orders charge req w) =
         Response 400 (Error (''Insufficient stock for product '' @ show_int (item_id it))) \<and>
       products (snd (post_orders charge req w)) = products w \<and>
       orders (snd (post_orders charge req w)) = orders w)"
proof (intro conjI impI)
  assume q: "quantity it = stock row \<and> charge (Math_round (price row * of_int (quantity it) * 100)) pm"
  with assms(6) have c: "fst (check_items [it] 0 w) = Inr (price row * of_int (quantity it))"
    by (simp add: select_product_def)
  have ne: "[it] \<noteq> []" by simp
  from q have ch: "charge (Math_round (price row * of_int (quantity it) * 100)) pm"
    by (rule conjunct2)
  note s = post_orders_success [where charge = charge,
      OF assms(1) assms(5) assms(3) assms(2) ne assms(4) c ch]
  from s(1) show "\<exists>r. fst (post_orders charge req w) = Response 200 (Success r)" by blast
  from s(3) [of "item_id it"] assms(6) q
  show "products (snd (post_orders charge req w)) (item_id it) = Some (row\<lparr>stock := 0\<rparr>)"
    by simp
next
  assume q: "quantity it = stock row + 1"
  with assms(6) have c: "check_items [it] 0 w =
      (Inl (Response 400 (Error (''Insufficient stock for product '' @ show_int (item_id it)))),
       snd (select_product (item_id it) w))"
    by (simp add: select_product_def)
  with assms have eq: "post_orders charge req w =
      (Response 400 (Error (''Insufficient stock for product '' @ show_int (item_id it))),
       snd (select_product (item_id it) w))"
    by (simp add: post_orders_def)
  show "fst (post_orders charge req w) =
         Response 400 (Error (''Insufficient stock for product '' @ show_int (item_id it)))"
    by (simp add: eq)
  show "products (snd (post_orders charge req w)) = products w" by (simp add: eq)
  show "orders (snd (post_orders charge req w)) = orders w" by (simp add: eq)
qed

theorem order_at_stock_boundary_witness:
  "req_email (order_for [cart_line 5]) = Some ''ann@example.com'' \<and>
   paymentMethodId (order_for [cart_line 5]) = Some ''pm_card_visa'' \<and>
   req_items (order_for [cart_line 5]) = Some [cart_line 5] \<and>
   products shop 1 = Some \<lparr>price = 20, stock = 5\<rparr> \<and>
   quantity (cart_line 5) = 5 \<and> quantity (cart_line 6) = 5 + 1 \<and>
   (\<exists>r. fst (post_orders accept (order_for [cart_line 5]) shop) = Response 200 (Success r)) \<and>
   products (snd (post_orders accept (order_for [cart_line 5]) shop)) 1 = Some \<lparr>price = 20, stock = 0\<rparr> \<and>
   fst (post_orders accept (order_for [cart_line 6]) shop) =
     Response 400 (Error ''Insufficient stock for product 1'') \<and>
   products (snd (post_orders accept (order_for [cart_line 6]) shop)) = products shop \<and>
   orders (snd (post_orders accept (order_for [cart_line 6]) shop)) = orders shop"
proof -
  have a: "req_email (order_for items) = Some ''ann@example.com''"
    "paymentMethodId (order_for items) = Some ''pm_card_visa''"
    "req_items (order_for items) = Some items" for items
    by (simp_all add: order_for_def)
  have ne: "''ann@example.com'' \<noteq> []" "''pm_card_visa'' \<noteq> []" by simp_all
  have p: "products shop (item_id (cart_line q)) = Some \<lparr>price = 20, stock = 5\<rparr>" for q
    by (simp add: shop_def cart_line_def)
  have q: "quantity (cart_line q) = q" "item_id (cart_line q) = 1" for q
    by (simp_all add: cart_line_def)
  have s: "show_int 1 = ''1''" by code_simp
  have ch: "accept x y" for x y by (simp add: accept_def)
  from order_at_stock_boundary
         [where charge = accept and req = "order_for [cart_line 5]" and w = shop,
          OF a(1) ne(1) a(2) ne(2) a(3) p]
       order_at_stock_boundary
         [where charge = accept and req = "order_for [cart_line 6]" and w = shop,
          OF a(1) ne(1) a(2) ne(2) a(3) p]
       a p q s ch
  show ?thesis by simp
qed

section \<open>What an order row stores\<close>







lemma readable_stringify: "readable (JSON_stringify its)"
  by (simp add: readable_def JSON_parse_stringify)

lemma readable_orders_append:
  "readable_orders w \<Longrightarrow> orders w' = orders w @ [row] \<Longrightarrow> readable (order_products row) \<Longrightarrow>
     readable_orders w'"
  by (simp add: readable_orders_def)

lemma readable_orders_same: "readable_orders w \<Longrightarrow> orders w' = orders w \<Longrightarrow> readable_orders w'"
  by (simp add: readable_orders_def)

lemma webhook_keeps_readable:
  assumes r: "readable_orders w"
  shows "readable_orders (snd (webhook constructEvent req w))"
proof (cases "constructEvent (raw_body req) (stripe_signature req)")
  case (Inl msg)
  with r show ?thesis by (simp add: webhook_rejected)
next
  case (Inr ev)
  show ?thesis
  proof (cases "event_type ev = ''checkout.session.completed''")
    case True
    show ?thesis
      by (rule readable_orders_append
            [OF r webhook_completed(2) [where constructEvent = constructEvent, OF Inr True]])
         (simp add: readable_stringify)
  next
    case False
    with Inr r show ?thesis by (simp add: webhook_other)
  qed
qed

lemma handler_keeps_readable:
  assumes r: "readable_orders w"
  shows "readable_orders (snd (handler constructEvent req w))"
proof (cases "http_method req = ''POST''")
  case False
  with r show ?thesis by (simp add: handler_def)
next
  case True
  show ?thesis
  proof (cases "constructEvent (raw_body req) (stripe_signature req)")
    case (Inl msg)
    with True r show ?thesis by (simp add: handler_def)
  next
    case (Inr ev)
    show ?thesis
    proof (cases "event_type ev = ''checkout.session.completed''")
      case c: True
      show ?thesis
        by (rule readable_orders_append
              [OF r handler_completed(2) [where constructEvent = constructEvent, OF True Inr c]])
           (simp add: readable_stringify)
    next
      case False
      with True Inr r show ?thesis by (simp add: handler_def)
    qed
  qed
qed

lemma post_orders_keeps_readable:
  assumes r: "readable_orders w"
  shows "readable_orders (snd (post_orders charge req w))"
proof (cases "\<exists>email items pm t. req_email req = Some email \<and> req_items req = Some items \<and>
      paymentMethodId req = Some pm \<and> email \<noteq> [] \<and> items \<noteq> [] \<and> pm \<noteq> [] \<and>
      fst (check_items items 0 w) = Inr t \<and> charge (Math_round (t * 100)) pm")
  case False
  from post_orders_failure [OF False] r show ?thesis by (simp add: readable_orders_same)
next
  case True
  then obtain email items pm t where v: "req_email req = Some email" "req_items req = Some items"
      "paymentMethodId req = Some pm" "email \<noteq> []" "items \<noteq> []" "pm \<noteq> []"
      "fst (check_items items 0 w) = Inr t" "charge (Math_round (t * 100)) pm"
    by blast
  show ?thesis
    by (rule readable_orders_append
          [OF r post_orders_success(2) [where charge = charge, OF v]])
       (simp add: readable_stringify)
qed


lemma decrement_items_reprice:
  "decrement_items (map (\<lambda>i. i\<lparr>item_price := f i\<rparr>) its) w = decrement_items its w"
  by (induction its arbitrary: w) simp_all











section \<open>Prices and manifest of a checkout session\<close>

text \<open>
  Claim C5, as stated: the unit prices of the gateway's line items come from the catalog,
  never from the request. It fails: the route does not read the catalog. A client that
  writes the price 1.00 on two pieces of product 1, which the ledger sells at 20.00, gets a
  line item of 100 cents each, not 2000.
\<close>

theorem client_price_counterexample:
  "products shop (item_id (cart_line 2)) = Some \<lparr>price = 20, stock = 5\<rparr> \<and>
   item_price (cart_line 2) = Some 1 \<and>
   map unit_amount
     (line_items (checkout_session_params 0 ''https://shop.example'' (Some ''ann@example.com'')
        [cart_line 2])) = [100] \<and>
   Math_round (20 * 100) = 2000"
  by code_simp

text \<open>
  Claim C5, amended. For every checkout-session request, the unit amount of each gateway
  line item is \<^verbatim>\<open>Math.round\<close> of 100 times the price that the request gives for the item, or
  times the fallback price when the request gives none or zero (0 in the current route, 10
  in its previous revision); the quantity is the requested one; and the text in the session
  metadata parses to exactly the \<^verbatim>\<open>{id, quantity}\<close> manifest of the requested items. The
  route hands these parameters to the gateway and answers with its URL or its error.
\<close>

theorem checkout_session_from_request:
  "map unit_amount (line_items (checkout_session_params fallback url email items)) =
     map (\<lambda>i. Math_round ((case item_price i of None \<Rightarrow> fallback
                             | Some p \<Rightarrow> if p = 0 then fallback else p) * 100)) items \<and>
   map line_quantity (line_items (checkout_session_params fallback url email items)) =
     map quantity items \<and>
   JSON_parse (params_metadata_items (checkout_session_params fallback url email items)) =
     Some (map manifest items) \<and>
   (checkout_items req = Some items \<longrightarrow>
      create_checkout_session url sessions_create req w =
        (case sessions_create (checkout_session_params 0 url (checkout_email req) items) of
           Inl msg \<Rightarrow> Response 500 (Error msg)
         | Inr session_url \<Rightarrow> Response 200 (Url session_url), w))"
  by (simp add: checkout_session_params_def line_item_of_def JSON_parse_manifest
      create_checkout_session_def o_def split: sum.split)

theorem checkout_session_from_request_witness:
  "checkout_items (checkout_for [cart_line 2]) = Some [cart_line 2] \<and>
   item_price (cart_line 2) = Some 1 \<and>
   map unit_amount
     (line_items (checkout_session_params 0 ''https://shop.example'' (Some ''ann@example.com'')
        [cart_line 2])) = [100] \<and>
   map line_quantity
     (line_items (checkout_session_params 0 ''https://shop.example'' (Some ''ann@example.com'')
        [cart_line 2])) = [2] \<and>
   JSON_parse
     (params_metadata_items
        (checkout_session_params 0 ''https://shop.example'' (Some ''ann@example.com'')
           [cart_line 2])) = Some [line 1 2] \<and>
   create_checkout_session ''https://shop.example'' hosted (checkout_for [cart_line 2]) shop =
     (Response 200 (Url ''https://checkout.example/pay''), shop)"
proof -
  have a: "checkout_items (checkout_for [cart_line 2]) = Some [cart_line 2]"
    "checkout_email (checkout_for [cart_line 2]) = Some ''ann@example.com''"
    by (simp_all add: checkout_for_def)
  have c: "item_price (cart_line 2) = Some 1" "quantity (cart_line 2) = 2"
    "manifest (cart_line 2) = line 1 2"
    by (simp_all add: cart_line_def manifest_def line_def)
  have r: "Math_round (1 * 100) = 100" by code_simp
  have h: "hosted p = Inr ''https://checkout.example/pay''" for p by (simp add: hosted_def)
  from checkout_session_from_request
         [of 0 "''https://shop.example''" "Some ''ann@example.com''" "[cart_line 2]"
             "checkout_for [cart_line 2]" hosted shop]
       a c r h
  show ?thesis by simp
qed

end
